theory Spec2Isabelle
  imports Main "HOL-Library.Multiset"
begin

section \<open>Strings\<close>

text \<open>
  A JavaScript string is a sequence of UTF-16 code units. A code unit is modelled as a
  natural number, so that the non-ASCII characters the program names (zero-width
  characters, full-width dashes and spaces, the Japanese error messages) keep their own
  values. \<open>asc\<close> writes an ASCII literal.
\<close>

type_synonym jsstring = "nat list"

definition asc :: "string \<Rightarrow> jsstring" where
  "asc s = map of_char s"

text \<open>\<open>String.prototype.slice(a, b)\<close>: a negative index counts from the end, both clamp.\<close>

definition slice :: "jsstring \<Rightarrow> int \<Rightarrow> int \<Rightarrow> jsstring" where
  "slice s a b =
     (let n = int (length s);
          from = (if a < 0 then max (n + a) 0 else min a n);
          to = (if b < 0 then max (n + b) 0 else min b n)
      in take (nat (to - from)) (drop (nat from) s))"

text \<open>\<open>slice(a)\<close> with one argument runs to the end of the string.\<close>

definition sliceFrom :: "jsstring \<Rightarrow> int \<Rightarrow> jsstring" where
  "sliceFrom s a = slice s a (int (length s))"

text \<open>The substring between two positions of a match (both inside the text).\<close>

definition substring :: "jsstring \<Rightarrow> nat \<Rightarrow> nat \<Rightarrow> jsstring" where
  "substring s a b = take (b - a) (drop a s)"

definition isLineTerminator :: "nat \<Rightarrow> bool" where
  "isLineTerminator c = (c = 10 \<or> c = 13 \<or> c = 8232 \<or> c = 8233)"

text \<open>White space of \<open>\s\<close> and of \<open>trim()\<close>: WhiteSpace and LineTerminator.\<close>

definition isWhiteSpace :: "nat \<Rightarrow> bool" where
  "isWhiteSpace c =
     (c = 9 \<or> c = 10 \<or> c = 11 \<or> c = 12 \<or> c = 13 \<or> c = 32 \<or> c = 160 \<or> c = 5760
      \<or> (8192 \<le> c \<and> c \<le> 8202) \<or> c = 8232 \<or> c = 8233 \<or> c = 8239 \<or> c = 8287
      \<or> c = 12288 \<or> c = 65279)"

definition isWordChar :: "nat \<Rightarrow> bool" where
  "isWordChar c =
     ((65 \<le> c \<and> c \<le> 90) \<or> (97 \<le> c \<and> c \<le> 122) \<or> (48 \<le> c \<and> c \<le> 57) \<or> c = 95)"

definition trim :: "jsstring \<Rightarrow> jsstring" where
  "trim s = rev (dropWhile isWhiteSpace (rev (dropWhile isWhiteSpace s)))"

definition startsWith :: "jsstring \<Rightarrow> jsstring \<Rightarrow> bool" where
  "startsWith s p = (take (length p) s = p)"

text \<open>\<open>h.indexOf(n)\<close>: the first position where \<open>n\<close> occurs in \<open>h\<close>, or \<open>-1\<close>.\<close>

fun indexOfFrom :: "jsstring \<Rightarrow> jsstring \<Rightarrow> nat \<Rightarrow> int" where
  "indexOfFrom [] n i = (if n = [] then int i else - 1)"
| "indexOfFrom (c # h) n i =
     (if take (length n) (c # h) = n then int i else indexOfFrom h n (Suc i))"

definition indexOf :: "jsstring \<Rightarrow> jsstring \<Rightarrow> int" where
  "indexOf h n = indexOfFrom h n 0"

section \<open>Regular expressions\<close>

text \<open>
  The program's regular expressions are written as syntax trees and run by a
  backtracking matcher that follows the ECMAScript semantics of the constructs the
  program uses. \<open>matches fl t r s\<close> lists, in the order in which backtracking tries them,
  the states in which \<open>r\<close> can end when started in state \<open>s\<close> of text \<open>t\<close>; a state is
  a position and the captures made so far. The first element is the match
  JavaScript reports.

  A quantifier with a minimum is written out (\<open>a+\<close> is \<open>a a*\<close>, \<open>a{3,}\<close> is
  \<open>a a a a*\<close>, \<open>a{1,2}\<close> is \<open>a a?\<close>); the atoms quantified in this program are
  single characters or character classes, for which this is the same.
  An iteration of a star that consumes nothing is rejected, as in ECMAScript.

  With the \<open>i\<close> flag, characters are compared after \<open>canonicalize\<close>. The patterns of
  this program hold only ASCII characters and Japanese characters without case, and no
  code unit above 127 canonicalizes to an ASCII one, so upper-casing ASCII letters is
  all that the comparison needs.
\<close>

record flags =
  ignoreCase :: bool
  multiline :: bool

definition canonicalize :: "flags \<Rightarrow> nat \<Rightarrow> nat" where
  "canonicalize fl c = (if ignoreCase fl \<and> 97 \<le> c \<and> c \<le> 122 then c - 32 else c)"

datatype citem = Ch nat | Rg nat nat | ClsS | ClsNotS | ClsW

datatype regex =
    Eps
  | Chr nat
  | Dot
  | Cset bool "citem list"
  | Seq regex regex
  | Alt regex regex
  | Star bool regex
  | Grp nat regex
  | Bref nat
  | Bol
  | Eol
  | WordB
  | Look regex

type_synonym caps = "nat \<Rightarrow> (nat \<times> nat) option"

type_synonym mstate = "nat \<times> caps"

definition item_match :: "flags \<Rightarrow> citem \<Rightarrow> nat \<Rightarrow> bool" where
  "item_match fl it c =
     (case it of
        Ch a \<Rightarrow> canonicalize fl a = canonicalize fl c
      | Rg lo hi \<Rightarrow> list_ex (\<lambda>a. canonicalize fl a = canonicalize fl c) [lo..<Suc hi]
      | ClsS \<Rightarrow> isWhiteSpace c
      | ClsNotS \<Rightarrow> \<not> isWhiteSpace c
      | ClsW \<Rightarrow> isWordChar c)"

text \<open>
  \<open>Cset neg its\<close> is a character class, negated when \<open>neg\<close>; \<open>Star greedy a\<close> is
  \<open>a*\<close> or \<open>a*?\<close>; \<open>Grp n a\<close> is the \<open>n\<close>-th capturing group; \<open>Bref n\<close> is
  \<open>\n\<close>; \<open>Bol\<close>, \<open>Eol\<close> and \<open>WordB\<close> are \<open>^\<close>, \<open>$\<close> and \<open>\b\<close>; \<open>Look a\<close> is
  \<open>(?=a)\<close>. The bound \<open>fst s' \<le> length t\<close> in the star holds of every state the
  matcher produces (\<open>matches_le_length\<close> below); it is there for the termination proof.
\<close>

function matches :: "flags \<Rightarrow> jsstring \<Rightarrow> regex \<Rightarrow> mstate \<Rightarrow> mstate list" where
  "matches fl t Eps s = [s]"
| "matches fl t (Chr c) s =
     (if fst s < length t \<and> canonicalize fl (t ! fst s) = canonicalize fl c
      then [(Suc (fst s), snd s)] else [])"
| "matches fl t Dot s =
     (if fst s < length t \<and> \<not> isLineTerminator (t ! fst s)
      then [(Suc (fst s), snd s)] else [])"
| "matches fl t (Cset neg its) s =
     (if fst s < length t \<and> (list_ex (\<lambda>it. item_match fl it (t ! fst s)) its \<noteq> neg)
      then [(Suc (fst s), snd s)] else [])"
| "matches fl t (Seq a b) s = concat (map (matches fl t b) (matches fl t a s))"
| "matches fl t (Alt a b) s = matches fl t a s @ matches fl t b s"
| "matches fl t (Star greedy a) s =
     (let more = concat (map (matches fl t (Star greedy a))
                   (filter (\<lambda>s'. fst s < fst s' \<and> fst s' \<le> length t) (matches fl t a s)))
      in if greedy then more @ [s] else s # more)"
| "matches fl t (Grp n a) s =
     map (\<lambda>s'. (fst s', (snd s')(n \<mapsto> (fst s, fst s')))) (matches fl t a s)"
| "matches fl t (Bref n) s =
     (case snd s n of
        None \<Rightarrow> [s]
      | Some (a, b) \<Rightarrow>
          (let w = substring t a b; k = length w
           in if fst s + k \<le> length t \<and>
                 map (canonicalize fl) (substring t (fst s) (fst s + k)) = map (canonicalize fl) w
              then [(fst s + k, snd s)] else []))"
| "matches fl t Bol s =
     (if fst s = 0 \<or> (multiline fl \<and> fst s \<le> length t \<and> isLineTerminator (t ! (fst s - 1)))
      then [s] else [])"
| "matches fl t Eol s =
     (if length t \<le> fst s \<or> (multiline fl \<and> isLineTerminator (t ! fst s))
      then [s] else [])"
| "matches fl t WordB s =
     (let a = (0 < fst s \<and> fst s \<le> length t \<and> isWordChar (t ! (fst s - 1)));
          b = (fst s < length t \<and> isWordChar (t ! fst s))
      in if a \<noteq> b then [s] else [])"
| "matches fl t (Look a) s = (case matches fl t a s of [] \<Rightarrow> [] | s' # _ \<Rightarrow> [(fst s, snd s')])"
  by pat_completeness auto
termination
  by (relation "measures [\<lambda>(fl, t, r, s). size r, \<lambda>(fl, t, r, s). length t - fst s]") auto

text \<open>Pattern-building shorthands.\<close>

definition lit :: "jsstring \<Rightarrow> regex" where
  "lit w = foldr (\<lambda>c r. Seq (Chr c) r) w Eps"

definition seqs :: "regex list \<Rightarrow> regex" where
  "seqs rs = foldr Seq rs Eps"

definition alts :: "regex \<Rightarrow> regex list \<Rightarrow> regex" where
  "alts r rs = foldl Alt r rs"

definition Opt :: "regex \<Rightarrow> regex" where
  "Opt a = Alt a Eps"

definition Plus :: "regex \<Rightarrow> regex" where
  "Plus a = Seq a (Star True a)"

text \<open>
  \<open>RegExpBuiltinExec\<close>: the first position from \<open>lastIndex\<close> on at which the pattern
  matches, with the end and the captures of the match found there; nothing when
  \<open>lastIndex\<close> is beyond the text.
\<close>

record rmatch =
  mstart :: nat
  mstop :: nat
  mgroups :: caps

fun scan :: "flags \<Rightarrow> jsstring \<Rightarrow> regex \<Rightarrow> nat \<Rightarrow> nat \<Rightarrow> rmatch option" where
  "scan fl t r 0 i = None"
| "scan fl t r (Suc n) i =
     (case matches fl t r (i, Map.empty) of
        [] \<Rightarrow> scan fl t r n (Suc i)
      | s # _ \<Rightarrow> Some \<lparr>mstart = i, mstop = fst s, mgroups = snd s\<rparr>)"

definition search :: "flags \<Rightarrow> jsstring \<Rightarrow> regex \<Rightarrow> nat \<Rightarrow> rmatch option" where
  "search fl t r lastIndex = scan fl t r (Suc (length t) - lastIndex) lastIndex"

text \<open>The text of the whole match and of a group (\<open>undefined\<close> is \<open>None\<close>).\<close>

definition matched :: "jsstring \<Rightarrow> rmatch \<Rightarrow> jsstring" where
  "matched t m = substring t (mstart m) (mstop m)"

definition grp :: "jsstring \<Rightarrow> rmatch \<Rightarrow> nat \<Rightarrow> jsstring option" where
  "grp t m n = (case mgroups m n of None \<Rightarrow> None | Some (a, b) \<Rightarrow> Some (substring t a b))"

text \<open>\<open>a ?? b\<close> on a possibly undefined string.\<close>

definition orElse :: "jsstring option \<Rightarrow> jsstring \<Rightarrow> jsstring" where
  "orElse v d = (case v of None \<Rightarrow> d | Some w \<Rightarrow> w)"

text \<open>\<open>re.test(t)\<close> of a pattern without the \<open>g\<close> flag.\<close>

definition test :: "flags \<Rightarrow> regex \<Rightarrow> jsstring \<Rightarrow> bool" where
  "test fl r t = (search fl t r 0 \<noteq> None)"

text \<open>
  \<open>t.replace(re, f)\<close> of a pattern with the \<open>g\<close> flag: every match from left to
  right, the next search starting where the match ended, or one further when the match
  was empty. \<open>f\<close> is the replacement function; a replacement string without \<open>$\<close> is
  the constant function. \<open>prev\<close> is the end of the previous match. A match never ends
  before \<open>lastIndex\<close>, so the \<open>max\<close> changes nothing; it is there for the
  termination proof.
\<close>

function replaceLoop ::
  "flags \<Rightarrow> regex \<Rightarrow> (rmatch \<Rightarrow> jsstring) \<Rightarrow> jsstring \<Rightarrow> nat \<Rightarrow> nat \<Rightarrow> jsstring" where
  "replaceLoop fl r f t lastIndex prev =
     (if length t < lastIndex then drop prev t
      else case search fl t r lastIndex of
        None \<Rightarrow> drop prev t
      | Some m \<Rightarrow>
          substring t prev (mstart m) @ f m @
          replaceLoop fl r f t
            (max (Suc lastIndex) (if mstop m = mstart m then Suc (mstop m) else mstop m))
            (mstop m))"
  by pat_completeness auto
termination
  by (relation "measure (\<lambda>(fl, r, f, t, lastIndex, prev). Suc (length t) - lastIndex)") auto

definition replaceAll :: "flags \<Rightarrow> regex \<Rightarrow> (rmatch \<Rightarrow> jsstring) \<Rightarrow> jsstring \<Rightarrow> jsstring" where
  "replaceAll fl r f t = replaceLoop fl r f t 0 0"

text \<open>\<open>t.replace(re, w)\<close> of a pattern without the \<open>g\<close> flag: the first match only.\<close>

definition replaceFirst :: "flags \<Rightarrow> regex \<Rightarrow> jsstring \<Rightarrow> jsstring \<Rightarrow> jsstring" where
  "replaceFirst fl r w t =
     (case search fl t r 0 of
        None \<Rightarrow> t
      | Some m \<Rightarrow> take (mstart m) t @ w @ drop (mstop m) t)"

text \<open>The least number of code units a match of the pattern consumes.\<close>

fun minlen :: "regex \<Rightarrow> nat" where
  "minlen Eps = 0"
| "minlen (Chr c) = 1"
| "minlen Dot = 1"
| "minlen (Cset neg its) = 1"
| "minlen (Seq a b) = minlen a + minlen b"
| "minlen (Alt a b) = min (minlen a) (minlen b)"
| "minlen (Star greedy a) = 0"
| "minlen (Grp n a) = minlen a"
| "minlen (Bref n) = 0"
| "minlen Bol = 0"
| "minlen Eol = 0"
| "minlen WordB = 0"
| "minlen (Look a) = 0"

section \<open>utils.ts: extractMermaidBlocks\<close>

record block =
  startOffset :: nat
  endOffset :: nat
  fenceOpen :: jsstring
  fenceClose :: jsstring
  info :: jsstring
  code :: jsstring
  index :: nat

definition spaceTab :: regex where
  "spaceTab = Cset False [Ch 32, Ch 9]"

text \<open>
  The pattern of \<open>extractMermaidBlocks\<close>, flags \<open>gmi\<close>:
  \<^verbatim>\<open>(^|\r?\n)([ \t]*)(`{3,}|~{3,})[ \t]*mermaid([^\n]*)\n([\s\S]*?)(?:\n[ \t]*\3[ \t]*)(?=\r?\n|$)\<close>
\<close>

definition flagsMI :: flags where
  "flagsMI = \<lparr>ignoreCase = True, multiline = True\<rparr>"

definition reExtract :: regex where
  "reExtract = seqs
     [Grp 1 (Alt Bol (Seq (Opt (Chr 13)) (Chr 10))),
      Grp 2 (Star True spaceTab),
      Grp 3 (Alt (seqs [Chr 96, Chr 96, Chr 96, Star True (Chr 96)])
                 (seqs [Chr 126, Chr 126, Chr 126, Star True (Chr 126)])),
      Star True spaceTab,
      lit (asc ''mermaid''),
      Grp 4 (Star True (Cset True [Ch 10])),
      Chr 10,
      Grp 5 (Star False (Cset False [ClsS, ClsNotS])),
      seqs [Chr 10, Star True spaceTab, Bref 3, Star True spaceTab],
      Look (Alt (Seq (Opt (Chr 13)) (Chr 10)) Eol)]"

text \<open>
  The loop \<open>while ((m = re.exec(text)) !== null)\<close>. \<open>exec\<close> of a global pattern
  starts at \<open>lastIndex\<close> and leaves it at the end of the match, so a match that ends
  where the search started would be found again for ever: the loop does not return
  then, which is the value \<open>None\<close>.
\<close>

function extractLoop :: "jsstring \<Rightarrow> nat \<Rightarrow> nat \<Rightarrow> block list option" where
  "extractLoop text lastIndex idx =
     (case search flagsMI text reExtract lastIndex of
        None \<Rightarrow> Some []
      | Some m \<Rightarrow>
          if mstop m \<le> lastIndex \<or> length text < mstop m then None
          else
            (let indent = orElse (grp text m 2) [];
                 fence = orElse (grp text m 3) [];
                 info = trim (orElse (grp text m 4) []);
                 code = orElse (grp text m 5) [];
                 relStartInWhole = indexOf (matched text m) code
             in if relStartInWhole < 0 then extractLoop text (mstop m) idx
                else
                  (let startOffset = mstart m + nat relStartInWhole;
                       endOffset = startOffset + length code;
                       fenceOpen = indent @ fence @ asc ''mermaid'' @
                                   (if info \<noteq> [] then asc '' '' @ info else []);
                       fenceClose = fence
                   in map_option
                        (Cons \<lparr>startOffset = startOffset, endOffset = endOffset,
                               fenceOpen = fenceOpen, fenceClose = fenceClose,
                               info = info, code = code, index = idx\<rparr>)
                        (extractLoop text (mstop m) (Suc idx)))))"
  by pat_completeness auto
termination
  by (relation "measure (\<lambda>(text, lastIndex, idx). Suc (length text) - lastIndex)") auto

definition extractMermaidBlocks :: "jsstring \<Rightarrow> block list option" where
  "extractMermaidBlocks text = extractLoop text 0 0"

text \<open>
  Blocks in strictly ascending order of \<open>startOffset\<close>, each ending before the next
  starts.
\<close>

definition ordered_blocks :: "block list \<Rightarrow> bool" where
  "ordered_blocks bs =
     sorted_wrt (\<lambda>a b. startOffset a < startOffset b \<and> endOffset a \<le> startOffset b) bs"

section \<open>applyReplacementsToContent\<close>

text \<open>
  A replacement \<open>{start, end, text}\<close>. The offsets are JavaScript numbers; they are
  integers here, so that a negative offset is an input of the model (\<open>slice\<close> counts
  it from the end).
\<close>

record replacement =
  r_start :: int
  r_end :: int
  r_text :: jsstring

text \<open>
  The body of the loop:
  \<open>result.slice(0, replacement.start) + replacement.text + result.slice(replacement.end)\<close>.
\<close>

definition spliceAt :: "jsstring \<Rightarrow> int \<Rightarrow> int \<Rightarrow> jsstring \<Rightarrow> jsstring" where
  "spliceAt result s e w = slice result 0 s @ w @ sliceFrom result e"

text \<open>
  \<open>[...replacements].sort((a, b) => b.start - a.start)\<close> is a stable sort by descending
  \<open>start\<close>: \<open>sort_key\<close> on the negated start. The loop then splices each replacement
  into the running result.
\<close>

definition applyReplacementsToContent :: "jsstring \<Rightarrow> replacement list \<Rightarrow> jsstring" where
  "applyReplacementsToContent content replacements =
     (let sortedReplacements = sort_key (\<lambda>r. - r_start r) replacements
      in foldl (\<lambda>result replacement.
                  spliceAt result (r_start replacement) (r_end replacement) (r_text replacement))
           content sortedReplacements)"

text \<open>
  The specification's side: the replacements applied one at a time in a given order,
  each interpreted against the offsets of the original text. An offset of the original
  text is found in the running text by adding the growth of every replacement already
  applied that starts before it.
\<close>

definition shiftFor :: "replacement \<Rightarrow> replacement list \<Rightarrow> int" where
  "shiftFor r applied =
     (\<Sum>d\<leftarrow>filter (\<lambda>d. r_start d < r_start r) applied.
        int (length (r_text d)) - (r_end d - r_start d))"

fun applyInOrderFrom :: "jsstring \<Rightarrow> replacement list \<Rightarrow> replacement list \<Rightarrow> jsstring" where
  "applyInOrderFrom cur applied [] = cur"
| "applyInOrderFrom cur applied (r # rs) =
     applyInOrderFrom
       (spliceAt cur (r_start r + shiftFor r applied) (r_end r + shiftFor r applied) (r_text r))
       (r # applied) rs"

definition applyInOrder :: "jsstring \<Rightarrow> replacement list \<Rightarrow> jsstring" where
  "applyInOrder T order = applyInOrderFrom T [] order"

text \<open>In bounds: \<open>0 \<le> start \<le> end \<le> T.length\<close>. Spans that do not overlap.\<close>

definition inBounds :: "jsstring \<Rightarrow> replacement \<Rightarrow> bool" where
  "inBounds T r = (0 \<le> r_start r \<and> r_start r \<le> r_end r \<and> r_end r \<le> int (length T))"

definition disjointSpans :: "replacement \<Rightarrow> replacement \<Rightarrow> bool" where
  "disjointSpans a b = (r_end a \<le> r_start b \<or> r_end b \<le> r_start a)"

fun nonOverlapping :: "replacement list \<Rightarrow> bool" where
  "nonOverlapping [] = True"
| "nonOverlapping (r # rs) = (list_all (disjointSpans r) rs \<and> nonOverlapping rs)"

text \<open>
  The simultaneous replacement of the spans of a list in ascending order: the original
  text from \<open>p\<close> on, each span replaced by its text.
\<close>

fun renderSpans :: "jsstring \<Rightarrow> nat \<Rightarrow> replacement list \<Rightarrow> jsstring" where
  "renderSpans T p [] = drop p T"
| "renderSpans T p (r # rs) =
     take (nat (r_start r) - p) (drop p T) @ r_text r @ renderSpans T (nat (r_end r)) rs"

text \<open>
  A list in ascending order whose spans follow each other between \<open>p\<close> and \<open>n\<close>.
\<close>

fun chain :: "nat \<Rightarrow> replacement list \<Rightarrow> nat \<Rightarrow> bool" where
  "chain p [] n = (p \<le> n)"
| "chain p (r # rs) n =
     (int p \<le> r_start r \<and> r_start r \<le> r_end r \<and> chain (nat (r_end r)) rs n)"

text \<open>
  Where the original offset \<open>r_start r\<close> lies in \<open>renderSpans T p ds\<close>, for a replacement \<open>r\<close>
  that is not in the ascending list \<open>ds\<close>.
\<close>

fun posOf :: "nat \<Rightarrow> replacement \<Rightarrow> replacement list \<Rightarrow> nat" where
  "posOf p r [] = nat (r_start r) - p"
| "posOf p r (d # ds) =
     (if r_start d < r_start r
      then (nat (r_start d) - p) + length (r_text d) + posOf (nat (r_end d)) r ds
      else nat (r_start r) - p)"

section \<open>utils.ts\<close>

definition flags0 :: flags where
  "flags0 = \<lparr>ignoreCase = False, multiline = False\<rparr>"

definition flagsI :: flags where
  "flagsI = \<lparr>ignoreCase = True, multiline = False\<rparr>"

definition flagsM :: flags where
  "flagsM = \<lparr>ignoreCase = False, multiline = True\<rparr>"

definition ws :: regex where
  "ws = Cset False [ClsS]"

definition anyChar :: regex where
  "anyChar = Cset False [ClsS, ClsNotS]"

subsection \<open>stripCodeFences\<close>

text \<open>
  \<^verbatim>\<open>text.replace(/^```\w*\n?/, '').replace(/\n?```$/, '').trim()\<close>
\<close>

definition reFenceOpen :: regex where
  "reFenceOpen = seqs [Bol, Chr 96, Chr 96, Chr 96, Star True (Cset False [ClsW]), Opt (Chr 10)]"

definition reFenceClose :: regex where
  "reFenceClose = seqs [Opt (Chr 10), Chr 96, Chr 96, Chr 96, Eol]"

definition stripCodeFences :: "jsstring \<Rightarrow> jsstring" where
  "stripCodeFences s =
     trim (replaceFirst flags0 reFenceClose [] (replaceFirst flags0 reFenceOpen [] s))"

subsection \<open>withTimeout\<close>

text \<open>
  A promise is described by how it settles: fulfilled or rejected at a time (in
  milliseconds after the call), or never. A rejection carries the message of its
  \<open>Error\<close>.

  \<open>window.setTimeout\<close> belongs to the host. Its delay is a 32-bit signed integer: the
  number it is given is converted modulo \<open>2^32\<close> into the range from \<open>-2^31\<close> to
  \<open>2^31 - 1\<close> (\<open>toInt32\<close>), and a negative delay counts as 0. So a delay from
  2147483648 to 4294967295 is a timer that is due at once. A promise that settles no
  later than the timer is due wins the race: its \<open>finally\<close> clears the timer, so
  nothing is aborted.

  \<open>withTimeout\<close> returns the promise it builds, the delay it asks of the timer it arms
  (if any) and the time at which it calls \<open>controller.abort()\<close> (if ever). \<open>ms\<close> is an
  integer here: \<open>NaN\<close>, infinities and fractions are outside the model.
\<close>

datatype 'a promise = Fulfils nat 'a | Rejects nat jsstring | Pending

record 'a timed =
  outcome :: "'a promise"
  timer :: "int option"
  aborted :: "nat option"

definition timeoutMessage :: jsstring where
  "timeoutMessage = [12522, 12463, 12456, 12473, 12488, 12364, 12479, 12452, 12512, 12450,
     12454, 12488, 12375, 12414, 12375, 12383, 12290]"

definition toInt32 :: "int \<Rightarrow> int" where
  "toInt32 n =
     (let m = n mod 4294967296 in if 2147483648 \<le> m then m - 4294967296 else m)"

definition timerDelay :: "int \<Rightarrow> nat" where
  "timerDelay ms = nat (max 0 (toInt32 ms))"

definition settlesInTime :: "'a promise \<Rightarrow> nat \<Rightarrow> bool" where
  "settlesInTime p due =
     (case p of Fulfils t v \<Rightarrow> t \<le> due | Rejects t e \<Rightarrow> t \<le> due | Pending \<Rightarrow> False)"

definition withTimeout :: "'a promise \<Rightarrow> int \<Rightarrow> bool \<Rightarrow> 'a timed" where
  "withTimeout p ms controller =
     (if ms \<le> 0 then \<lparr>outcome = p, timer = None, aborted = None\<rparr>
      else if settlesInTime p (timerDelay ms)
      then \<lparr>outcome = p, timer = Some ms, aborted = None\<rparr>
      else \<lparr>outcome = Rejects (timerDelay ms) timeoutMessage, timer = Some ms,
             aborted = (if controller then Some (timerDelay ms) else None)\<rparr>)"

subsection \<open>preNormalizeMermaid\<close>

text \<open>
  The pattern is built from strings; what the constructor receives is
  \<^verbatim>\<open>([A-Za-z0-9_\-]+)\s*(\[|\(|\{{1,2})\s*([\s\S]*?)\s*(\]|\)|\}{1,2})\<close>
  with the flag \<open>g\<close>: the quantifier \<open>{1,2}\<close> binds to the brace alone.
  The tests on the label are \<^verbatim>\<open>/<br\s*\/?\s*>/i\<close> and \<^verbatim>\<open>/^".*"$/\<close>.
\<close>

definition idChar :: regex where
  "idChar = Cset False [Rg 65 90, Rg 97 122, Rg 48 57, Ch 95, Ch 45]"

definition reNode :: regex where
  "reNode = seqs
     [Grp 1 (Plus idChar),
      Star True ws,
      Grp 2 (alts (Chr 91) [Chr 40, Seq (Chr 123) (Opt (Chr 123))]),
      Star True ws,
      Grp 3 (Star False anyChar),
      Star True ws,
      Grp 4 (alts (Chr 93) [Chr 41, Seq (Chr 125) (Opt (Chr 125))])]"

definition reBr :: regex where
  "reBr = seqs [lit (asc ''<br''), Star True ws, Opt (Chr 47), Star True ws, Chr 62]"

definition reQuoted :: regex where
  "reQuoted = seqs [Bol, Chr 34, Star True Dot, Chr 34, Eol]"

text \<open>The two characters \<open>\n\<close> of the replacement: a backslash and the letter n.\<close>

definition backslashN :: jsstring where
  "backslashN = [92, 110]"

definition normalizeNode :: "jsstring \<Rightarrow> rmatch \<Rightarrow> jsstring" where
  "normalizeNode t m =
     (let ident = orElse (grp t m 1) [];
          opn = orElse (grp t m 2) [];
          label = orElse (grp t m 3) [];
          close = orElse (grp t m 4) []
      in if \<not> test flagsI reBr label then matched t m
         else
           (let replaced = replaceAll flagsI reBr (\<lambda>b. backslashN) label;
                trimmed = trim replaced;
                wrapped = (if test flags0 reQuoted trimmed then trimmed
                           else [34] @ trimmed @ [34])
            in ident @ opn @ wrapped @ close))"

definition preNormalizeMermaid :: "jsstring \<Rightarrow> jsstring" where
  "preNormalizeMermaid src = replaceAll flags0 reNode (normalizeNode src) src"

subsection \<open>inferDiagramType\<close>

definition startsWord :: "jsstring \<Rightarrow> regex" where
  "startsWord w = seqs [Bol, lit w, WordB]"

definition inferDiagramType :: "jsstring \<Rightarrow> jsstring option" where
  "inferDiagramType src =
     (let t = trim src in
      if test flagsI (startsWord (asc ''sequenceDiagram'')) t then Some (asc ''sequenceDiagram'')
      else if test flagsI (startsWord (asc ''classDiagram'')) t then Some (asc ''classDiagram'')
      else if test flagsI (startsWord (asc ''erDiagram'')) t then Some (asc ''erDiagram'')
      else if test flagsI (seqs [Bol, lit (asc ''stateDiagram''), Opt (lit (asc ''-v2'')), WordB]) t
        then Some (asc ''stateDiagram'')
      else if test flagsI (startsWord (asc ''gantt'')) t then Some (asc ''gantt'')
      else if test flagsI (startsWord (asc ''journey'')) t then Some (asc ''journey'')
      else if test flagsI (startsWord (asc ''pie'')) t then Some (asc ''pie'')
      else if test flagsI (startsWord (asc ''mindmap'')) t then Some (asc ''mindmap'')
      else if test flagsI (startsWord (asc ''timeline'')) t then Some (asc ''timeline'')
      else if test flagsI
                (seqs [Bol, Alt (lit (asc ''flowchart'')) (lit (asc ''graph'')), WordB]) t
        then Some (asc ''graph'')
      else None)"

subsection \<open>validateMermaidAsync\<close>

text \<open>
  A value thrown or reported by the parser is read as
  \<open>err?.str ?? err?.message ?? String(err)\<close>.
\<close>

record errval =
  e_str :: "jsstring option"
  e_message :: "jsstring option"
  e_string :: jsstring

definition errText :: "errval \<Rightarrow> jsstring" where
  "errText e =
     (case e_str e of
        Some s \<Rightarrow> s
      | None \<Rightarrow> (case e_message e of Some m \<Rightarrow> m | None \<Rightarrow> e_string e))"

text \<open>
  The value of \<open>mermaid.parseError\<close>: nothing, a function of the host, or the closure
  that call number \<open>n\<close> of \<open>validateMermaidAsync\<close> installs.
\<close>

datatype handler = NoHandler | HostHandler nat | Trap nat

text \<open>
  What a call of the external parser does: while it runs it may report errors to
  \<open>mermaid.parseError\<close> and may assign that field itself; it ends by returning (a value
  or a promise that fulfils), by a promise that rejects, by throwing, or never (a promise
  that does not settle).
\<close>

datatype pevent = Report errval | SetHook handler

datatype ending = Returns | Rejected errval | Thrown errval | Stalls

record prun =
  events :: "pevent list"
  ending :: ending

record mermaid =
  parseError :: handler
  parse :: "(jsstring \<Rightarrow> prun) option"
  apiParse :: "(jsstring \<Rightarrow> prun) option"
  render :: "(jsstring \<Rightarrow> prun) option"

record validation =
  ok :: bool
  error :: "jsstring option"

definition hasMermaid :: "mermaid option \<Rightarrow> bool" where
  "hasMermaid w =
     (case w of None \<Rightarrow> False
      | Some m \<Rightarrow> parse m \<noteq> None \<or> apiParse m \<noteq> None \<or> render m \<noteq> None)"

definition msgNotLoaded :: jsstring where
  "msgNotLoaded = asc ''Mermaid '' @
     [12364, 12525, 12540, 12489, 12373, 12428, 12390, 12356, 12414, 12379, 12435, 12290]"

definition msgNoParseApi :: jsstring where
  "msgNoParseApi = asc ''Mermaid '' @ [12398] @ asc '' parse API '' @
     [12364, 35211, 12388, 12363, 12426, 12414, 12379, 12435, 12290]"

text \<open>
  The parser's events, in order: a report reaches the closure of this call only while
  the field still holds it; \<open>trappedError\<close> keeps the last report.
\<close>

fun runEvents :: "nat \<Rightarrow> pevent list \<Rightarrow> handler \<times> jsstring option \<Rightarrow> handler \<times> jsstring option"
  where
  "runEvents n [] st = st"
| "runEvents n (Report e # es) (h, trapped) =
     runEvents n es (h, if h = Trap n then Some (errText e) else trapped)"
| "runEvents n (SetHook h' # es) (h, trapped) = runEvents n es (h', trapped)"

text \<open>The entry point, in the order of the \<open>if\<close> chain.\<close>

definition entryPoint :: "mermaid \<Rightarrow> (jsstring \<Rightarrow> prun) option" where
  "entryPoint m =
     (case parse m of
        Some f \<Rightarrow> Some f
      | None \<Rightarrow> (case apiParse m of Some f \<Rightarrow> Some f | None \<Rightarrow> render m))"

text \<open>
  \<open>validateMermaidAsync\<close>, call number \<open>n\<close>, on \<open>window.mermaid\<close>: the result and the
  mermaid object afterwards; \<open>None\<close> when the call never completes. Every return inside
  \<open>try\<close> and the \<open>catch\<close> pass through \<open>finally\<close>, which assigns \<open>prevParseError\<close>.
\<close>

definition validateMermaidAsync ::
  "nat \<Rightarrow> mermaid option \<Rightarrow> jsstring \<Rightarrow> (validation \<times> mermaid option) option" where
  "validateMermaidAsync n w codeRaw =
     (case w of
        None \<Rightarrow> Some (\<lparr>ok = False, error = Some msgNotLoaded\<rparr>, None)
      | Some m \<Rightarrow>
          (let code = preNormalizeMermaid codeRaw;
               prevParseError = parseError m
           in case entryPoint m of
                None \<Rightarrow>
                  Some (\<lparr>ok = False, error = Some msgNoParseApi\<rparr>,
                        Some (m\<lparr>parseError := prevParseError\<rparr>))
              | Some f \<Rightarrow>
                  (let run = f code;
                       trappedError = snd (runEvents n (events run) (Trap n, None))
                   in case ending run of
                        Stalls \<Rightarrow> None
                      | Returns \<Rightarrow>
                          Some ((case trappedError of
                                   None \<Rightarrow> \<lparr>ok = True, error = None\<rparr>
                                 | Some e \<Rightarrow>
                                     if e \<noteq> [] then \<lparr>ok = False, error = Some e\<rparr>
                                     else \<lparr>ok = True, error = None\<rparr>),
                                Some (m\<lparr>parseError := prevParseError\<rparr>))
                      | Rejected e \<Rightarrow>
                          Some (\<lparr>ok = False, error = Some (errText e)\<rparr>,
                                Some (m\<lparr>parseError := prevParseError\<rparr>))
                      | Thrown e \<Rightarrow>
                          Some (\<lparr>ok = False, error = Some (errText e)\<rparr>,
                                Some (m\<lparr>parseError := prevParseError\<rparr>)))))"

section \<open>The Gemini module\<close>

subsection \<open>normalizeSurface\<close>

text \<open>
  Five global replacements: the byte order mark and the zero-width characters are
  removed, the minus sign U+2212, the long vowel mark U+30FC and the horizontal bar
  U+2015 become \<open>-\<close>, the ideographic space becomes a space, and spaces and tabs before
  the end of a line (\<^verbatim>\<open>/[ \t]+$/gm\<close>) are removed.
\<close>

definition normalizeSurface :: "jsstring \<Rightarrow> jsstring" where
  "normalizeSurface s =
     replaceAll flagsM (seqs [Plus spaceTab, Eol]) (\<lambda>m. [])
       (replaceAll flags0 (Chr 12288) (\<lambda>m. [32])
         (replaceAll flags0 (Cset False [Ch 8722, Ch 12540, Ch 8213, Ch 8213]) (\<lambda>m. [45])
           (replaceAll flags0 (Cset False [Rg 8203 8205, Ch 8288]) (\<lambda>m. [])
             (replaceAll flags0 (Chr 65279) (\<lambda>m. []) s))))"

subsection \<open>preNormalizeMermaid of the Gemini module\<close>

text \<open>
  Step 1, \<^verbatim>\<open>/\[([\s\S]*?)\]/g\<close>: inside square brackets \<^verbatim>\<open>/<br\s*\/?>/gi\<close> becomes
  a backslash and an n. Step 2, \<^verbatim>\<open>/\[([^\]\n]*)\]/g\<close>: a label that is not already
  quoted (\<^verbatim>\<open>/^".*"$/\<close>) and needs quotes
  (\<^verbatim>\<open>/\\n|[<>]|"|,|\(|\)|\{|\}|:/\<close>) is quoted, its quotes escaped. Step 3 is
  \<open>normalizeSurface\<close>.
\<close>

definition reBracket :: regex where
  "reBracket = seqs [Chr 91, Grp 1 (Star False anyChar), Chr 93]"

definition reBrGemini :: regex where
  "reBrGemini = seqs [lit (asc ''<br''), Star True ws, Opt (Chr 47), Chr 62]"

definition reLabel :: regex where
  "reLabel = seqs [Chr 91, Grp 1 (Star True (Cset True [Ch 93, Ch 10])), Chr 93]"

definition reNeedsQuote :: regex where
  "reNeedsQuote =
     alts (lit backslashN)
       [Cset False [Ch 60, Ch 62], Chr 34, Chr 44, Chr 40, Chr 41, Chr 123, Chr 125, Chr 58]"

definition brInBrackets :: "jsstring \<Rightarrow> rmatch \<Rightarrow> jsstring" where
  "brInBrackets t m =
     (let inner = orElse (grp t m 1) [];
          replaced = replaceAll flagsI reBrGemini (\<lambda>b. backslashN) inner
      in [91] @ replaced @ [93])"

definition quoteLabel :: "jsstring \<Rightarrow> rmatch \<Rightarrow> jsstring" where
  "quoteLabel t m =
     (let inner = orElse (grp t m 1) [];
          alreadyQuoted = test flags0 reQuoted inner;
          needsQuote = test flags0 reNeedsQuote inner
      in if alreadyQuoted \<or> \<not> needsQuote then matched t m
         else
           (let escaped = replaceAll flags0 (Chr 34) (\<lambda>q. [92, 34]) inner
            in [91, 34] @ escaped @ [34, 93]))"

definition preNormalizeMermaid_gemini :: "jsstring \<Rightarrow> jsstring" where
  "preNormalizeMermaid_gemini src =
     (let out1 = replaceAll flags0 reBracket (brInBrackets src) src;
          out2 = replaceAll flags0 reLabel (quoteLabel out1) out1
      in normalizeSurface out2)"

subsection \<open>extractFromSentinel and sanitizeMermaidOutput\<close>

text \<open>\<^verbatim>\<open>output.match(/BEGIN_MERMAID\s*\n([\s\S]*?)\nEND_MERMAID/)\<close>\<close>

definition reSentinel :: regex where
  "reSentinel = seqs
     [lit (asc ''BEGIN_MERMAID''), Star True ws, Chr 10, Grp 1 (Star False anyChar),
      Chr 10, lit (asc ''END_MERMAID'')]"

definition extractFromSentinel :: "jsstring \<Rightarrow> jsstring" where
  "extractFromSentinel output =
     (case search flags0 output reSentinel 0 of
        Some m \<Rightarrow> trim (orElse (grp output m 1) [])
      | None \<Rightarrow> trim output)"

definition sanitizeMermaidOutput :: "jsstring \<Rightarrow> jsstring" where
  "sanitizeMermaidOutput out = normalizeSurface (trim (stripCodeFences out))"

subsection \<open>preserveInitIfNeeded\<close>

text \<open>
  \<open>s.split(re)\<close> for a pattern without groups: at each position \<open>q\<close> the pattern is
  tried there and nowhere else; a match that ends at the start \<open>p\<close> of the current piece
  is skipped. A match never ends before it starts, so \<open>max q\<close> changes nothing; it is
  there for the termination proof.
\<close>

function splitLoop :: "flags \<Rightarrow> regex \<Rightarrow> jsstring \<Rightarrow> nat \<Rightarrow> nat \<Rightarrow> jsstring list" where
  "splitLoop fl r t p q =
     (if length t \<le> q then [substring t p (length t)]
      else case matches fl t r (q, Map.empty) of
        [] \<Rightarrow> splitLoop fl r t p (Suc q)
      | s # _ \<Rightarrow>
          (let e = min (max q (fst s)) (length t)
           in if e = p then splitLoop fl r t p (Suc q)
              else substring t p q # splitLoop fl r t e e))"
  by pat_completeness auto
termination
  by (relation "measure (\<lambda>(fl, r, t, p, q). 2 * (length t - q) + (if p = q then 0 else 1))")
     (auto split: if_splits)

definition split :: "flags \<Rightarrow> regex \<Rightarrow> jsstring \<Rightarrow> jsstring list" where
  "split fl r t =
     (if t = [] then (if matches fl t r (0, Map.empty) = [] then [t] else [])
      else splitLoop fl r t 0 0)"

text \<open>
  The line of the original that is taken for its directive: the first line (split at
  \<^verbatim>\<open>/\r?\n/\<close>) whose trimmed text starts with \<^verbatim>\<open>%%{\<close> and that matches
  \<^verbatim>\<open>/init\s*:/\<close>. The corrected text has a directive when it matches
  \<^verbatim>\<open>/%%\{[^}]*init[^}]*\}%%/\<close>.
\<close>

definition reNewline :: regex where
  "reNewline = Seq (Opt (Chr 13)) (Chr 10)"

definition reInitColon :: regex where
  "reInitColon = seqs [lit (asc ''init''), Star True ws, Chr 58]"

definition reHasInit :: regex where
  "reHasInit = seqs
     [lit (asc ''%%{''), Star True (Cset True [Ch 125]), lit (asc ''init''),
      Star True (Cset True [Ch 125]), lit (asc ''}%%'')]"

definition isInitLine :: "jsstring \<Rightarrow> bool" where
  "isInitLine l = (startsWith (trim l) (asc ''%%{'') \<and> test flags0 reInitColon l)"

definition hasInit :: "jsstring \<Rightarrow> bool" where
  "hasInit fixed = test flags0 reHasInit fixed"

definition preserveInitIfNeeded :: "jsstring \<Rightarrow> jsstring \<Rightarrow> bool \<Rightarrow> jsstring" where
  "preserveInitIfNeeded original fixed enabled =
     (if \<not> enabled then fixed
      else
        (let origLines = split flags0 reNewline original
         in case find isInitLine origLines of
              None \<Rightarrow> fixed
            | Some origInitLine \<Rightarrow>
                if hasInit fixed then fixed
                else trim origInitLine @ [10] @ fixed))"

subsection \<open>callGeminiSingle\<close>

datatype apiVersion = V1 | V1beta

definition versionString :: "apiVersion \<Rightarrow> jsstring" where
  "versionString v = (case v of V1 \<Rightarrow> asc ''v1'' | V1beta \<Rightarrow> asc ''v1beta'')"

text \<open>A number in a template literal: its decimal digits.\<close>

function showNat :: "nat \<Rightarrow> jsstring" where
  "showNat n = (if n < 10 then [48 + n] else showNat (n div 10) @ [48 + n mod 10])"
  by pat_completeness auto
termination
  by (relation "measure (\<lambda>n. n)") auto

fun joinWith :: "jsstring \<Rightarrow> jsstring list \<Rightarrow> jsstring" where
  "joinWith sep [] = []"
| "joinWith sep [x] = x"
| "joinWith sep (x # y # ys) = x @ sep @ joinWith sep (y # ys)"

text \<open>
  What the program reads of the parsed body: \<open>candidates[0]\<close> with its \<open>finishReason\<close>
  and the \<open>text\<close> of each of its parts, and \<open>promptFeedback\<close> with its \<open>blockReason\<close> and
  the category and probability of each safety rating. An absent field is \<open>None\<close>.
  \<open>JSON.parse\<close> belongs to the host: it is the function \<open>json\<close> of the environment,
  \<open>None\<close> where it throws.
\<close>

record candidate =
  finishReason :: "jsstring option"
  partTexts :: "jsstring option list"

record feedback =
  blockReason :: "jsstring option"
  safetyRatings :: "(jsstring \<times> jsstring) list"

record gresponse =
  candidate0 :: "candidate option"
  promptFeedback :: "feedback option"

text \<open>
  What \<open>fetch\<close> does with a call: a response with a status and a body (\<open>None\<close> when
  reading the body fails, which the program turns into the empty string), or a
  rejection; it arrives at a time after the call, or never.
\<close>

datatype net_event = Response nat "jsstring option" | FetchFails jsstring

datatype reply = Reply nat net_event | NoReply

datatype decision = Replace | Skip | AutoApply | Dismissed

text \<open>
  The environment of a run: the reply to the \<open>k\<close>-th network call, \<open>JSON.parse\<close>, the
  message of the \<open>URIError\<close> of \<open>encodeURIComponent\<close>, whether the active file has
  changed when the \<open>k\<close>-th block is reached, and what the user does with the preview of
  the \<open>k\<close>-th block (\<open>Dismissed\<close>: the dialog is closed without a choice). The request
  itself (URL, prompt, generation parameters) is not in the model: the replies are
  arbitrary, so they cover every way a service may depend on it.
\<close>

record env =
  net :: "nat \<Rightarrow> reply"
  json :: "jsstring \<Rightarrow> gresponse option"
  uriError :: jsstring
  fileChanged :: "nat \<Rightarrow> bool"
  decide :: "nat \<Rightarrow> decision"

definition authMessage :: "nat \<Rightarrow> jsstring \<Rightarrow> jsstring" where
  "authMessage status body =
     asc ''Gemini API '' @ [35469, 35388, 12456, 12521, 12540] @ asc '' ('' @ showNat status @
     asc ''). API'' @
     [12461, 12540, 12420, 12503, 12525, 12472, 12455, 12463, 12488, 35373, 23450, 12434,
      30906, 35469, 12375, 12390, 12367, 12384, 12373, 12356, 12290, 24540, 31572] @
     asc '': '' @ body"

definition notFoundMessage :: "apiVersion \<Rightarrow> jsstring \<Rightarrow> jsstring" where
  "notFoundMessage version body =
     [12514, 12487, 12523, 12364, 35211, 12388, 12363, 12426, 12414, 12379, 12435] @
     asc '' ('' @ versionString version @
     asc ''). '' @ [12514, 12487, 12523, 21517, 12392] @ asc ''API'' @
     [12496, 12540, 12472, 12519, 12531, 12398, 32068, 12415, 21512, 12431, 12379, 12434,
      30906, 35469, 12375, 12390, 12367, 12384, 12373, 12356, 12290, 24540, 31572] @
     asc '': '' @ body"

definition rateLimitMessage :: "jsstring \<Rightarrow> jsstring" where
  "rateLimitMessage body =
     [12524, 12540, 12488, 21046, 38480, 12395, 21040, 36948, 12375, 12414, 12375, 12383] @
     asc '' (429)'' @ [12290, 24540, 31572] @ asc '': '' @ body"

definition serverMessage :: "nat \<Rightarrow> jsstring \<Rightarrow> jsstring" where
  "serverMessage status body =
     asc ''Gemini '' @ [12469, 12540, 12496, 12540, 12456, 12521, 12540] @ asc '' ('' @
     showNat status @ asc '')'' @ [12290, 24540, 31572] @ asc '': '' @ body"

definition otherMessage :: "nat \<Rightarrow> jsstring \<Rightarrow> jsstring" where
  "otherMessage status body =
     asc ''Gemini API '' @ [12456, 12521, 12540] @ asc '': '' @ showNat status @ asc '' '' @ body"

definition jsonMessage :: "jsstring \<Rightarrow> jsstring" where
  "jsonMessage body =
     asc ''Gemini'' @ [24540, 31572, 12398] @ asc ''JSON'' @
     [35299, 26512, 12395, 22833, 25943, 12375, 12414, 12375, 12383, 12290, 29983, 12487,
      12540, 12479] @
     asc '': '' @ slice body 0 400"

definition noCandidateMessage :: "feedback option \<Rightarrow> jsstring" where
  "noCandidateMessage fb =
     (let reason =
            (case fb of
               None \<Rightarrow> [20505, 35036, 12364, 36820, 12373, 12428, 12414, 12379, 12435, 12391,
                         12375, 12383]
             | Some f \<Rightarrow>
                 orElse (blockReason f)
                   [20505, 35036, 12364, 36820, 12373, 12428, 12414, 12379, 12435, 12391,
                    12375, 12383]);
          ratings =
            joinWith (asc '', '')
              (map (\<lambda>(category, probability). category @ asc '':'' @ probability)
                 (case fb of None \<Rightarrow> [] | Some f \<Rightarrow> safetyRatings f))
      in asc ''Gemini'' @
         [12363, 12425, 12398, 24540, 31572, 12364, 19981, 27491, 12391, 12377, 12290, 29702,
          30001] @
         asc '': '' @ reason @
         (if ratings \<noteq> [] then [65288, 35443, 32048] @ asc '': '' @ ratings @ [65289] else []))"

definition incompleteMessage :: "jsstring \<Rightarrow> jsstring" where
  "incompleteMessage reason =
     [29983, 25104, 12364, 23436, 20102, 12375, 12414, 12379, 12435, 12391, 12375, 12383,
      12290] @
     asc ''finishReason='' @ reason"

definition emptyOutputMessage :: jsstring where
  "emptyOutputMessage =
     asc ''Gemini'' @
     [12364, 26377, 21177, 12394, 20462, 27491, 26696, 12434, 36820, 12375, 12414, 12379,
      12435, 12391, 12375, 12383, 65288, 31354, 20986, 21147, 65289, 12290]"

text \<open>
  The part of \<open>callGeminiSingle\<close> after \<open>fetch\<close> and \<open>res.text()\<close>: the raw text of the
  first candidate, or the message of the error thrown. \<open>res.ok\<close> is a status from 200
  to 299.
\<close>

definition responseResult ::
  "(jsstring \<Rightarrow> gresponse option) \<Rightarrow> apiVersion \<Rightarrow> nat \<Rightarrow> jsstring \<Rightarrow> jsstring + jsstring" where
  "responseResult parseJson version status body =
     (if \<not> (200 \<le> status \<and> status \<le> 299) then
        (if status = 401 \<or> status = 403 then Inl (authMessage status body)
         else if status = 404 \<and> test flagsI (lit (asc ''not found'')) body
           then Inl (notFoundMessage version body)
         else if status = 429 then Inl (rateLimitMessage body)
         else if 500 \<le> status then Inl (serverMessage status body)
         else Inl (otherMessage status body))
      else
        (case (if body \<noteq> [] then parseJson body
               else Some \<lparr>candidate0 = None, promptFeedback = None\<rparr>) of
           None \<Rightarrow> Inl (jsonMessage body)
         | Some data \<Rightarrow>
             (case candidate0 data of
                None \<Rightarrow> Inl (noCandidateMessage (promptFeedback data))
              | Some cand \<Rightarrow>
                  (let reason = orElse (finishReason cand) []
                   in if reason \<noteq> [] \<and> reason \<noteq> asc ''STOP'' \<and> reason \<noteq> asc ''MAX_TOKENS''
                      then Inl (incompleteMessage reason)
                      else Inr (concat (map (\<lambda>p. orElse p []) (partTexts cand)))))))"

text \<open>
  \<open>encodeURIComponent\<close> throws on a string that is not well-formed UTF-16 (a surrogate
  without its partner); the URL is built before \<open>fetch\<close> is called.
\<close>

fun isWellFormed :: "jsstring \<Rightarrow> bool" where
  "isWellFormed [] = True"
| "isWellFormed [c] = (\<not> (55296 \<le> c \<and> c \<le> 57343))"
| "isWellFormed (c # d # cs) =
     (if 55296 \<le> c \<and> c \<le> 56319 then 56320 \<le> d \<and> d \<le> 57343 \<and> isWellFormed cs
      else if 56320 \<le> c \<and> c \<le> 57343 then False
      else isWellFormed (d # cs))"

text \<open>
  The module's state: the memo (\<open>fixMemo\<close>) and the number of network calls made so
  far. A call returns a string, throws an error with a message, or never returns.
\<close>

record world =
  fixMemo :: "jsstring \<rightharpoonup> jsstring"
  calls :: nat

datatype 'a result = Returned 'a | Throws jsstring | Hangs

text \<open>
  \<open>callGeminiSingle\<close> as the promise it returns; the reply of the network to a call is
  that of its number. A call that fails before \<open>fetch\<close> is no network call.
\<close>

definition callGeminiSingle ::
  "env \<Rightarrow> jsstring \<Rightarrow> jsstring \<Rightarrow> apiVersion \<Rightarrow> world \<Rightarrow> jsstring promise \<times> world" where
  "callGeminiSingle e apiKey model version w =
     (if \<not> isWellFormed model \<or> \<not> isWellFormed apiKey then (Rejects 0 (uriError e), w)
      else
        (case net e (calls w) of
           NoReply \<Rightarrow> Pending
         | Reply t (FetchFails msg) \<Rightarrow> Rejects t msg
         | Reply t (Response status body) \<Rightarrow>
             (case responseResult (json e) version status (orElse body []) of
                Inl msg \<Rightarrow> Rejects t msg
              | Inr raw \<Rightarrow> Fulfils t raw),
         w\<lparr>calls := Suc (calls w)\<rparr>))"

subsection \<open>geminiFixSingle\<close>

text \<open>
  A call of \<open>geminiFixSingle\<close>: the memo is consulted first; on a miss one network
  call is made under \<open>withTimeout\<close>.
\<close>

definition memoKey ::
  "apiVersion \<Rightarrow> jsstring \<Rightarrow> jsstring option \<Rightarrow> jsstring \<Rightarrow> jsstring \<Rightarrow> jsstring" where
  "memoKey apiVersion model diagram pre errorMsg =
     versionString apiVersion @ asc ''::'' @ model @ asc ''::'' @
     orElse diagram (asc ''unknown'') @ asc ''::'' @ pre @ asc ''::'' @ errorMsg"

definition geminiFixSingle ::
  "env \<Rightarrow> jsstring \<Rightarrow> jsstring \<Rightarrow> jsstring \<Rightarrow> jsstring \<Rightarrow> int \<Rightarrow> apiVersion \<Rightarrow> world \<Rightarrow>
   jsstring result \<times> world" where
  "geminiFixSingle e apiKey model original errorMsg timeoutMs apiVersion w =
     (let diagram = inferDiagramType original;
          pre = preNormalizeMermaid_gemini original;
          key = memoKey apiVersion model diagram pre errorMsg;
          memo = orElse (fixMemo w key) []
      in if memo \<noteq> [] then (Returned memo, w)
         else
           (case callGeminiSingle e apiKey model apiVersion w of
              (promise, w1) \<Rightarrow>
                (case outcome (withTimeout promise timeoutMs True) of
                   Pending \<Rightarrow> (Hangs, w1)
                 | Rejects t msg \<Rightarrow> (Throws msg, w1)
                 | Fulfils t raw \<Rightarrow>
                     (let middle = extractFromSentinel raw;
                          result = sanitizeMermaidOutput middle
                      in if result = [] then
                           (if pre \<noteq> [] \<and> pre \<noteq> original
                            then (Returned pre, w1\<lparr>fixMemo := (fixMemo w1)(key \<mapsto> pre)\<rparr>)
                            else (Throws emptyOutputMessage, w1))
                         else
                           (Returned result, w1\<lparr>fixMemo := (fixMemo w1)(key \<mapsto> result)\<rparr>)))))"

definition geminiFixWithBackoff ::
  "env \<Rightarrow> jsstring \<Rightarrow> jsstring \<Rightarrow> jsstring \<Rightarrow> jsstring \<Rightarrow> int \<Rightarrow> world \<Rightarrow>
   jsstring result \<times> world" where
  "geminiFixWithBackoff e apiKey model original errorMsg timeoutMs w =
     geminiFixSingle e apiKey model original errorMsg timeoutMs V1beta w"

section \<open>The plugin: runFixWithGemini\<close>

datatype applyMode = Confirm | Auto

record settings =
  geminiApiKey :: "jsstring option"
  geminiModel :: jsstring
  requestTimeoutMs :: int
  preserveInitDirective :: bool

text \<open>
  The state a run threads through its awaits: the module state of the client, the
  mermaid object and the number of validations made so far, the setting \<open>applyMode\<close>
  (which the preview dialog may change), and the locals \<open>replacements\<close>, \<open>autoApply\<close>
  and \<open>cancelled\<close>. A function of the run returns \<open>None\<close> when an await in it never
  resumes.
\<close>

record run_state =
  client :: world
  mm :: "mermaid option"
  validations :: nat
  modeSetting :: applyMode
  replacements :: "replacement list"
  autoApply :: bool
  cancelled :: bool

definition validateIn :: "run_state \<Rightarrow> jsstring \<Rightarrow> (validation \<times> run_state) option" where
  "validateIn st src =
     (case validateMermaidAsync (validations st) (mm st) src of
        None \<Rightarrow> None
      | Some (v, m') \<Rightarrow> Some (v, st\<lparr>mm := m', validations := Suc (validations st)\<rparr>))"

text \<open>
  The test of the \<open>catch\<close> block on the message of the error:
  \<open>/...|...|.../i\<close> with the three phrases of the authentication error, the
  model-not-found error and the JSON error.
\<close>

definition reHardError :: regex where
  "reHardError =
     alts (lit [35469, 35388, 12456, 12521, 12540])
       [lit [12514, 12487, 12523, 12364, 35211, 12388, 12363, 12426, 12414, 12379, 12435],
        lit ([24540, 31572, 12398] @ asc ''JSON'' @ [35299, 26512])]"

definition hardError :: "jsstring \<Rightarrow> bool" where
  "hardError msg = test flagsI reHardError msg"

definition msgUnknownSyntax :: jsstring where
  "msgUnknownSyntax = [19981, 26126, 12394, 27083, 25991, 12456, 12521, 12540]"

definition msgStillInvalid :: jsstring where
  "msgStillInvalid =
     [20462, 27491, 24460, 12418, 12456, 12521, 12540, 12364, 27531, 12387, 12390, 12356,
      12414, 12377]"

record attempt_result =
  success :: bool
  fixedCode :: "jsstring option"

text \<open>
  The loop \<open>for (let attempt = 1; attempt <= maxAttempts; attempt++)\<close> with the
  attempts that are left as its argument. The \<open>catch\<close> block ends with \<open>break\<close> whatever
  the error is.
\<close>

fun attemptLoop ::
  "env \<Rightarrow> settings \<Rightarrow> block \<Rightarrow> nat \<Rightarrow> jsstring \<Rightarrow> jsstring \<Rightarrow> run_state \<Rightarrow>
   (attempt_result \<times> run_state) option" where
  "attemptLoop e S b 0 currentCode lastError st =
     Some (\<lparr>success = False, fixedCode = None\<rparr>, st)"
| "attemptLoop e S b (Suc left) currentCode lastError st =
     (case geminiFixWithBackoff e (orElse (geminiApiKey S) []) (geminiModel S) currentCode
             lastError (requestTimeoutMs S) (client st) of
        (Hangs, w) \<Rightarrow> None
      | (Throws msg, w) \<Rightarrow>
          Some (\<lparr>success = False, fixedCode = None\<rparr>,
                st\<lparr>client := w, cancelled := (hardError msg \<or> cancelled st)\<rparr>)
      | (Returned proposedFix, w) \<Rightarrow>
          (let codeToValidate =
                 preserveInitIfNeeded (code b) proposedFix (preserveInitDirective S)
           in case validateIn (st\<lparr>client := w\<rparr>) codeToValidate of
                None \<Rightarrow> None
              | Some (v, st') \<Rightarrow>
                  if ok v then Some (\<lparr>success = True, fixedCode = Some codeToValidate\<rparr>, st')
                  else attemptLoop e S b left codeToValidate
                         (orElse (error v) msgStillInvalid) st'))"

definition maxAttempts :: nat where
  "maxAttempts = 5"

definition queued :: "block \<Rightarrow> jsstring \<Rightarrow> replacement" where
  "queued b fixed =
     \<lparr>r_start = int (startOffset b), r_end = int (endOffset b), r_text = fixed\<rparr>"

text \<open>
  The loop over the blocks with an error; \<open>k\<close> counts the blocks reached. The loop
  ends at once when the run is cancelled or the file has changed, and right after an
  attempt loop that cancelled the run.
\<close>

fun blocksLoop ::
  "env \<Rightarrow> settings \<Rightarrow> (block \<times> jsstring) list \<Rightarrow> nat \<Rightarrow> run_state \<Rightarrow> run_state option" where
  "blocksLoop e S [] k st = Some st"
| "blocksLoop e S ((b, initialError) # rest) k st =
     (if cancelled st then Some st
      else if fileChanged e k then Some (st\<lparr>cancelled := True\<rparr>)
      else
        (case attemptLoop e S b maxAttempts (code b) initialError st of
           None \<Rightarrow> None
         | Some (res, st1) \<Rightarrow>
             if cancelled st1 then Some st1
             else if success res \<and> orElse (fixedCode res) [] \<noteq> [] then
               (let rep = queued b (orElse (fixedCode res) [])
                in if autoApply st1
                   then blocksLoop e S rest (Suc k)
                          (st1\<lparr>replacements := replacements st1 @ [rep]\<rparr>)
                   else
                     (case decide e k of
                        Replace \<Rightarrow>
                          blocksLoop e S rest (Suc k)
                            (st1\<lparr>replacements := replacements st1 @ [rep]\<rparr>)
                      | Skip \<Rightarrow> blocksLoop e S rest (Suc k) st1
                      | AutoApply \<Rightarrow>
                          blocksLoop e S rest (Suc k)
                            (st1\<lparr>autoApply := True, modeSetting := Auto,
                                  replacements := replacements st1 @ [rep]\<rparr>)
                      | Dismissed \<Rightarrow> None))
             else blocksLoop e S rest (Suc k) st1))"

text \<open>The first pass: the blocks that do not validate, each with its error.\<close>

fun collectErrors ::
  "block list \<Rightarrow> run_state \<Rightarrow> ((block \<times> jsstring) list \<times> run_state) option" where
  "collectErrors [] st = Some ([], st)"
| "collectErrors (b # bs) st =
     (case validateIn st (code b) of
        None \<Rightarrow> None
      | Some (v, st1) \<Rightarrow>
          (case collectErrors bs st1 of
             None \<Rightarrow> None
           | Some (errs, st2) \<Rightarrow>
               Some ((if ok v then errs else (b, orElse (error v) msgUnknownSyntax) # errs),
                     st2)))"

text \<open>
  \<open>applyReplacementsReverse\<close> on the text of the editor. The editor belongs to the
  host; \<open>replaceRange(text, offsetToPos(s), offsetToPos(e))\<close> is taken to replace the
  text between the offsets \<open>s\<close> and \<open>e\<close>. The offsets are clamped to the length of the
  text read before the loop.
\<close>

definition clamp :: "int \<Rightarrow> int \<Rightarrow> int \<Rightarrow> int" where
  "clamp n lo hi = max lo (min hi n)"

definition applyReplacementsReverse :: "jsstring \<Rightarrow> replacement list \<Rightarrow> jsstring" where
  "applyReplacementsReverse doc reps =
     foldl (\<lambda>cur r.
              (let s = clamp (r_start r) 0 (int (length doc));
                   e = clamp (r_end r) s (int (length doc))
               in take (nat s) cur @ r_text r @ drop (nat e) cur))
       doc (sort_key (\<lambda>r. - r_start r) reps)"

text \<open>
  What the run does with the text of the editor once the loop has ended: nothing
  when the run was cancelled or nothing was queued.
\<close>

definition finish :: "jsstring \<Rightarrow> run_state \<Rightarrow> jsstring" where
  "finish doc st =
     (if \<not> cancelled st \<and> replacements st \<noteq> []
      then applyReplacementsReverse doc (replacements st) else doc)"

text \<open>
  \<open>runFixWithGemini\<close> on the text of the active editor (\<open>None\<close>: there is no active
  Markdown view): the text afterwards and the state.
\<close>

definition runFixWithGemini ::
  "env \<Rightarrow> settings \<Rightarrow> jsstring option \<Rightarrow> run_state \<Rightarrow> (jsstring option \<times> run_state) option"
  where
  "runFixWithGemini e S view st =
     (case view of
        None \<Rightarrow> Some (None, st)
      | Some doc \<Rightarrow>
          if orElse (geminiApiKey S) [] = [] then Some (Some doc, st)
          else if \<not> hasMermaid (mm st) then Some (Some doc, st)
          else
            (case extractMermaidBlocks doc of
               None \<Rightarrow> None
             | Some allBlocks \<Rightarrow>
                 if allBlocks = [] then Some (Some doc, st)
                 else
                   (case collectErrors allBlocks st of
                      None \<Rightarrow> None
                    | Some (errorBlocks, st1) \<Rightarrow>
                        if errorBlocks = [] then Some (Some doc, st1)
                        else
                          (case blocksLoop e S errorBlocks 0
                                  (st1\<lparr>replacements := [],
                                        autoApply := (modeSetting st1 = Auto),
                                        cancelled := False\<rparr>) of
                             None \<Rightarrow> None
                           | Some st2 \<Rightarrow> Some (Some (finish doc st2), st2)))))"

section \<open>Scenarios\<close>

text \<open>
  The concrete run on which the theorems about the retry loop are instantiated. The
  document holds two blocks, \<open>A\<close> and \<open>B\<close>, which the parser refuses (it throws an
  error whose \<open>str\<close> is \<open>E\<close>); it accepts every other text.
\<close>

definition docAB :: jsstring where
  "docAB = asc ''```mermaid'' @ [10] @ asc ''A'' @ [10] @ asc ''```'' @ [10] @
           asc ''~~~mermaid'' @ [10] @ asc ''B'' @ [10] @ asc ''~~~''"

definition blockA :: block where
  "blockA = \<lparr>startOffset = 11, endOffset = 12, fenceOpen = asc ''```mermaid'',
              fenceClose = asc ''```'', info = [], code = asc ''A'', index = 0\<rparr>"

definition blockB :: block where
  "blockB = \<lparr>startOffset = 28, endOffset = 29, fenceOpen = asc ''~~~mermaid'',
              fenceClose = asc ''~~~'', info = [], code = asc ''B'', index = 1\<rparr>"

definition strictParser :: "jsstring \<Rightarrow> prun" where
  "strictParser src =
     \<lparr>events = [],
      ending = (if src = asc ''A'' \<or> src = asc ''B''
                then Thrown \<lparr>e_str = Some (asc ''E''), e_message = None, e_string = []\<rparr>
                else Returns)\<rparr>"

definition stateA :: run_state where
  "stateA =
     \<lparr>client = \<lparr>fixMemo = Map.empty, calls = 0\<rparr>,
      mm = Some \<lparr>parseError = NoHandler, parse = Some strictParser, apiParse = None,
                 render = None\<rparr>,
      validations = 0, modeSetting = Auto, replacements = [], autoApply = True,
      cancelled = False\<rparr>"

definition settingsA :: settings where
  "settingsA =
     \<lparr>geminiApiKey = Some (asc ''key''), geminiModel = asc ''model'',
      requestTimeoutMs = 30000, preserveInitDirective = True\<rparr>"

text \<open>
  A service that answers every request with a candidate whose text is \<open>C\<close>, but for
  the request whose number is \<open>k\<close>, which it answers with the status \<open>status\<close> and an
  empty body.
\<close>

definition goodJson :: "jsstring \<Rightarrow> gresponse option" where
  "goodJson body =
     Some \<lparr>candidate0 = Some \<lparr>finishReason = Some (asc ''STOP''),
                               partTexts = [Some (asc ''C'')]\<rparr>,
           promptFeedback = None\<rparr>"

definition envFailingAt :: "nat \<Rightarrow> nat \<Rightarrow> env" where
  "envFailingAt k status =
     \<lparr>net = (\<lambda>i. if i = k then Reply 10 (Response status (Some []))
                  else Reply 10 (Response 200 (Some (asc ''{}'')))),
      json = goodJson, uriError = asc ''URI malformed'',
      fileChanged = (\<lambda>i. False), decide = (\<lambda>i. Replace)\<rparr>"

section \<open>Properties of the matcher\<close>

declare matches.simps(7) [simp del]

declare replaceLoop.simps [simp del]

declare extractLoop.simps [simp del]

declare splitLoop.simps [simp del]

declare showNat.simps [simp del]

lemma matches_star_set:
  "s' \<in> set (matches fl t (Star greedy a) s) \<longleftrightarrow>
     s' = s \<or> (\<exists>x \<in> set (matches fl t a s). fst s < fst x \<and> fst x \<le> length t \<and>
                  s' \<in> set (matches fl t (Star greedy a) x))"
  by (subst matches.simps(7)) (auto simp: Let_def)

lemma matches_minlen: "s' \<in> set (matches fl t r s) \<Longrightarrow> fst s + minlen r \<le> fst s'"
proof (induction fl t r s arbitrary: s' rule: matches.induct)
  case (5 fl t a b s)
  from 5(3) obtain x where x: "x \<in> set (matches fl t a s)" "s' \<in> set (matches fl t b x)" by auto
  from 5(1)[OF x(1)] 5(2)[OF x] show ?case by simp
next
  case (7 fl t greedy a s)
  from 7(3) consider "s' = s"
    | x where "x \<in> set (matches fl t a s)" "fst s < fst x" "fst x \<le> length t"
        "s' \<in> set (matches fl t (Star greedy a) x)"
    by (subst (asm) matches_star_set) auto
  then show ?case
  proof cases
    case 1
    then show ?thesis by simp
  next
    case 2
    from 7(2)[of x s'] 2 show ?thesis by simp
  qed
next
  case (6 fl t a b s)
  from 6(3) have "s' \<in> set (matches fl t a s) \<or> s' \<in> set (matches fl t b s)" by simp
  with 6(1)[of s'] 6(2)[of s'] show ?case by auto
next
  case (9 fl t n s)
  then show ?case by (auto simp: Let_def split: option.splits if_splits)
next
  case (13 fl t a s)
  then show ?case by (auto split: list.splits)
qed (auto simp: Let_def split: if_splits)

lemma matches_le_length: "s' \<in> set (matches fl t r s) \<Longrightarrow> fst s \<le> length t \<Longrightarrow> fst s' \<le> length t"
proof (induction fl t r s arbitrary: s' rule: matches.induct)
  case (5 fl t a b s)
  from 5(3) obtain x where x: "x \<in> set (matches fl t a s)" "s' \<in> set (matches fl t b x)" by auto
  from 5(1)[OF x(1) 5(4)] have "fst x \<le> length t" .
  from 5(2)[OF x this] show ?case .
next
  case (7 fl t greedy a s)
  from 7(3) consider "s' = s"
    | x where "x \<in> set (matches fl t a s)" "fst s < fst x" "fst x \<le> length t"
        "s' \<in> set (matches fl t (Star greedy a) x)"
    by (subst (asm) matches_star_set) auto
  then show ?case
  proof cases
    case 1
    then show ?thesis using 7(4) by simp
  next
    case 2
    from 7(2)[of x s'] 2 show ?thesis by simp
  qed
next
  case (9 fl t n s)
  then show ?case by (auto simp: Let_def split: option.splits if_splits)
next
  case (13 fl t a s)
  then show ?case by (auto split: list.splits)
qed (auto simp: Let_def split: if_splits)


lemma scan_props:
  "scan fl t r n i = Some m \<Longrightarrow>
     i \<le> mstart m \<and> mstart m < i + n \<and> (mstop m, mgroups m) \<in> set (matches fl t r (mstart m, Map.empty))"
proof (induction n arbitrary: i)
  case 0
  then show ?case by simp
next
  case (Suc n)
  show ?case
  proof (cases "matches fl t r (i, Map.empty)")
    case Nil
    with Suc.prems have "scan fl t r n (Suc i) = Some m" by simp
    from Suc.IH[OF this] show ?thesis by simp
  next
    case (Cons s ss)
    with Suc.prems have "m = \<lparr>mstart = i, mstop = fst s, mgroups = snd s\<rparr>" by simp
    with Cons show ?thesis by simp
  qed
qed

lemma search_props:
  assumes "search fl t r lastIndex = Some m"
  shows "lastIndex \<le> mstart m" and "mstart m \<le> length t"
    and "mstart m + minlen r \<le> mstop m" and "mstop m \<le> length t"
proof -
  from assms have sc: "scan fl t r (Suc (length t) - lastIndex) lastIndex = Some m"
    by (simp add: search_def)
  from scan_props[OF sc] show a: "lastIndex \<le> mstart m" and b: "mstart m \<le> length t"
    by auto
  from scan_props[OF sc] have mem: "(mstop m, mgroups m) \<in> set (matches fl t r (mstart m, Map.empty))"
    by simp
  from matches_minlen[OF mem] show "mstart m + minlen r \<le> mstop m" by simp
  from matches_le_length[OF mem] b show "mstop m \<le> length t" by simp
qed


text \<open>The definitions that evaluate the matcher and the string functions on a concrete text.\<close>

lemmas js_eval = asc_def isWhiteSpace_def isLineTerminator_def isWordChar_def canonicalize_def
  item_match_def search_def lit_def seqs_def alts_def Opt_def Plus_def substring_def matched_def
  grp_def orElse_def trim_def indexOf_def startsWith_def test_def replaceAll_def replaceFirst_def
  Let_def matches.simps(7) replaceLoop.simps splitLoop.simps split_def flags0_def flagsI_def
  flagsM_def flagsMI_def ws_def anyChar_def spaceTab_def

section \<open>Properties of extractMermaidBlocks\<close>

lemma indexOfFrom_props:
  "indexOfFrom h n i = r \<Longrightarrow> 0 \<le> r \<Longrightarrow>
     int i \<le> r \<and> nat r - i + length n \<le> length h \<and> take (length n) (drop (nat r - i) h) = n"
proof (induction h n i rule: indexOfFrom.induct)
  case (1 n i)
  then show ?case by (auto split: if_splits)
next
  case (2 c h n i)
  show ?case
  proof (cases "take (length n) (c # h) = n")
    case True
    with 2(2) have r: "r = int i" by simp
    from arg_cong[OF True, of length] have "length n \<le> length (c # h)"
      by simp
    with True r show ?thesis by simp
  next
    case False
    with 2(2) have "indexOfFrom h n (Suc i) = r" by simp
    from 2(1)[OF False this 2(3)]
    have ih: "int (Suc i) \<le> r" "nat r - Suc i + length n \<le> length h"
      "take (length n) (drop (nat r - Suc i) h) = n" by auto
    from ih(1) have "nat r - i = Suc (nat r - Suc i)" by linarith
    with ih show ?thesis by simp
  qed
qed

lemma indexOf_props:
  assumes "0 \<le> indexOf h n"
  shows "nat (indexOf h n) + length n \<le> length h"
    and "take (length n) (drop (nat (indexOf h n)) h) = n"
  using indexOfFrom_props[of h n 0 "indexOf h n"] assms by (auto simp: indexOf_def)

lemma indexOf_empty: "indexOf h [] = 0"
  by (cases h) (simp_all add: indexOf_def)

lemma minlen_reExtract: "minlen reExtract = 12"
  by (simp add: reExtract_def seqs_def lit_def asc_def Opt_def)

lemma extractLoop_inv:
  "extractLoop doc lastIndex idx = Some bs \<Longrightarrow>
     (\<forall>b \<in> set bs. lastIndex \<le> startOffset b \<and> endOffset b \<le> length doc \<and>
         startOffset b \<le> endOffset b \<and>
         take (endOffset b - startOffset b) (drop (startOffset b) doc) = code b) \<and>
     ordered_blocks bs"
proof (induction doc lastIndex idx arbitrary: bs rule: extractLoop.induct)
  case (1 doc lastIndex idx)
  show ?case
  proof (cases "search flagsMI doc reExtract lastIndex")
    case None
    with 1(3) have "bs = []" by (subst (asm) extractLoop.simps) simp
    then show ?thesis by (simp add: ordered_blocks_def)
  next
    case (Some m)
    note sp = search_props[OF Some]
    from sp(3) have prog: "mstart m + 12 \<le> mstop m" by (simp add: minlen_reExtract)
    with sp(1) have guard: "\<not> (mstop m \<le> lastIndex \<or> length doc < mstop m)"
      using sp(4) by simp
    define cd where "cd = orElse (grp doc m 5) []"
    define rel where "rel = indexOf (matched doc m) cd"
    show ?thesis
    proof (cases "rel < 0")
      case True
      with 1(3) Some guard have "extractLoop doc (mstop m) idx = Some bs"
        by (subst (asm) extractLoop.simps) (simp add: Let_def cd_def rel_def)
      from 1(1)[OF Some guard refl refl refl refl refl _ this] True
      have "(\<forall>b \<in> set bs. mstop m \<le> startOffset b \<and> endOffset b \<le> length doc \<and>
         startOffset b \<le> endOffset b \<and>
         take (endOffset b - startOffset b) (drop (startOffset b) doc) = code b) \<and>
        ordered_blocks bs"
        by (simp add: cd_def rel_def)
      with sp(1) prog show ?thesis by auto
    next
      case False
      define st where "st = mstart m + nat rel"
      define blk where "blk = \<lparr>startOffset = st, endOffset = st + length cd,
                               fenceOpen = orElse (grp doc m 2) [] @ orElse (grp doc m 3) [] @ asc ''mermaid'' @
                                   (if trim (orElse (grp doc m 4) []) \<noteq> [] then asc '' '' @ trim (orElse (grp doc m 4) []) else []),
                               fenceClose = orElse (grp doc m 3) [],
                               info = trim (orElse (grp doc m 4) []), code = cd, index = idx\<rparr>"
      from 1(3) Some guard False obtain bs' where
        rec: "extractLoop doc (mstop m) (Suc idx) = Some bs'" and bs: "bs = blk # bs'"
        by (subst (asm) extractLoop.simps)
           (auto simp: Let_def cd_def rel_def blk_def st_def)
      from 1(2)[OF Some guard refl refl refl refl refl _ refl refl refl refl rec] False
      have ih: "\<forall>b \<in> set bs'. mstop m \<le> startOffset b \<and> endOffset b \<le> length doc \<and>
         startOffset b \<le> endOffset b \<and>
         take (endOffset b - startOffset b) (drop (startOffset b) doc) = code b"
        and ord: "ordered_blocks bs'"
        by (simp_all add: cd_def rel_def)
      from False have rel0: "0 \<le> indexOf (matched doc m) cd" by (simp add: rel_def)
      have lenm: "length (matched doc m) = mstop m - mstart m"
        using sp(4) by (simp add: matched_def substring_def)
      from indexOf_props[OF rel0]
      have fit: "nat rel + length cd \<le> mstop m - mstart m"
        and occ: "take (length cd) (drop (nat rel) (matched doc m)) = cd"
        by (simp_all add: rel_def lenm)
      have "take (length cd) (drop (nat rel) (matched doc m)) =
            take (length cd) (drop (mstart m + nat rel) doc)"
        using fit by (simp add: matched_def substring_def drop_take add.commute)
      with occ have slice_ok: "take (length cd) (drop st doc) = cd"
        by (simp add: st_def)
      from fit prog have end_le: "st + length cd \<le> mstop m" by (simp add: st_def)
      have strict: "st < mstop m"
      proof (cases "cd = []")
        case True
        then have "rel = 0" by (simp add: rel_def indexOf_empty)
        with prog show ?thesis by (simp add: st_def)
      next
        case False
        with end_le show ?thesis by (cases cd) auto
      qed
      have head: "lastIndex \<le> startOffset blk \<and> endOffset blk \<le> length doc \<and>
         startOffset blk \<le> endOffset blk \<and>
         take (endOffset blk - startOffset blk) (drop (startOffset blk) doc) = code blk"
        using sp(1) sp(4) end_le slice_ok by (simp add: blk_def st_def)
      have "\<forall>b \<in> set bs'. startOffset blk < startOffset b \<and> endOffset blk \<le> startOffset b"
        using ih strict end_le by (auto simp: blk_def)
      with ord have "ordered_blocks bs" by (simp add: bs ordered_blocks_def)
      moreover have "\<forall>b \<in> set bs. lastIndex \<le> startOffset b \<and> endOffset b \<le> length doc \<and>
         startOffset b \<le> endOffset b \<and>
         take (endOffset b - startOffset b) (drop (startOffset b) doc) = code b"
        using head ih sp(1) prog by (auto simp: bs)
      ultimately show ?thesis by simp
    qed
  qed
qed

lemma extractLoop_returns: "\<exists>bs. extractLoop doc lastIndex idx = Some bs"
proof (induction doc lastIndex idx rule: extractLoop.induct)
  case (1 doc lastIndex idx)
  show ?case
  proof (cases "search flagsMI doc reExtract lastIndex")
    case None
    then show ?thesis by (subst extractLoop.simps) simp
  next
    case (Some m)
    note sp = search_props[OF Some]
    from sp(3) have prog: "mstart m + 12 \<le> mstop m" by (simp add: minlen_reExtract)
    with sp(1) have guard: "\<not> (mstop m \<le> lastIndex \<or> length doc < mstop m)"
      using sp(4) by simp
    from 1(1)[OF Some guard refl refl refl refl refl]
    have a: "indexOf (matched doc m) (orElse (grp doc m 5) []) < 0 \<Longrightarrow>
             \<exists>bs. extractLoop doc (mstop m) idx = Some bs" by simp
    from 1(2)[OF Some guard refl refl refl refl refl _ refl refl refl refl]
    have b: "\<not> indexOf (matched doc m) (orElse (grp doc m 5) []) < 0 \<Longrightarrow>
             \<exists>bs. extractLoop doc (mstop m) (Suc idx) = Some bs" by simp
    show ?thesis
      using Some guard a b by (subst extractLoop.simps) (auto simp: Let_def)
  qed
qed

lemma slice_take_drop:
  "a \<le> b \<Longrightarrow> b \<le> length s \<Longrightarrow> slice s (int a) (int b) = take (b - a) (drop a s)"
  by (simp add: slice_def Let_def min_def nat_diff_distrib')

text \<open>
  C1. For every document \<open>D\<close>, \<open>extractMermaidBlocks\<close> returns, and for every block
  \<open>b\<close> it returns, \<open>D.slice(b.startOffset, b.endOffset)\<close> is \<open>b.code\<close>; the blocks are
  in strictly ascending order of \<open>startOffset\<close> and their spans do not overlap.
\<close>

theorem extractMermaidBlocks_slices_ordered:
  "\<exists>bs. extractMermaidBlocks D = Some bs \<and>
        (\<forall>b \<in> set bs. slice D (int (startOffset b)) (int (endOffset b)) = code b) \<and>
        ordered_blocks bs"
proof -
  obtain bs where bs: "extractLoop D 0 0 = Some bs"
    using extractLoop_returns by blast
  from extractLoop_inv[OF bs]
  have inv: "\<forall>b \<in> set bs. endOffset b \<le> length D \<and> startOffset b \<le> endOffset b \<and>
               take (endOffset b - startOffset b) (drop (startOffset b) D) = code b"
    and ord: "ordered_blocks bs"
    by auto
  from inv have "\<forall>b \<in> set bs. slice D (int (startOffset b)) (int (endOffset b)) = code b"
    by (auto simp: slice_take_drop)
  with bs ord show ?thesis by (auto simp: extractMermaidBlocks_def)
qed

text \<open>
  The document of the witness holds a backtick block and a tilde block:
  \<^verbatim>\<open>```mermaid\nA\n```\n~~~mermaid\nB\n~~~\<close>
\<close>

theorem extractMermaidBlocks_slices_ordered_witness:
  "extractMermaidBlocks
     (asc ''```mermaid'' @ [10] @ asc ''A'' @ [10] @ asc ''```'' @ [10] @
      asc ''~~~mermaid'' @ [10] @ asc ''B'' @ [10] @ asc ''~~~'') =
   Some [\<lparr>startOffset = 11, endOffset = 12, fenceOpen = asc ''```mermaid'',
           fenceClose = asc ''```'', info = [], code = asc ''A'', index = 0\<rparr>,
         \<lparr>startOffset = 28, endOffset = 29, fenceOpen = asc ''~~~mermaid'',
           fenceClose = asc ''~~~'', info = [], code = asc ''B'', index = 1\<rparr>] \<and>
   slice (asc ''```mermaid'' @ [10] @ asc ''A'' @ [10] @ asc ''```'' @ [10] @
      asc ''~~~mermaid'' @ [10] @ asc ''B'' @ [10] @ asc ''~~~'') 11 12 = asc ''A'' \<and>
   slice (asc ''```mermaid'' @ [10] @ asc ''A'' @ [10] @ asc ''```'' @ [10] @
      asc ''~~~mermaid'' @ [10] @ asc ''B'' @ [10] @ asc ''~~~'') 28 29 = asc ''B''"
  using extractMermaidBlocks_slices_ordered
    [of "asc ''```mermaid'' @ [10] @ asc ''A'' @ [10] @ asc ''```'' @ [10] @
         asc ''~~~mermaid'' @ [10] @ asc ''B'' @ [10] @ asc ''~~~''"]
  by (simp add: js_eval extractLoop.simps extractMermaidBlocks_def reExtract_def slice_def)

section \<open>Properties of applyReplacementsToContent\<close>

lemma spliceAt_nat:
  "0 \<le> s \<Longrightarrow> 0 \<le> e \<Longrightarrow> spliceAt res s e w = take (nat s) res @ w @ drop (nat e) res"
  by (auto simp: spliceAt_def slice_def sliceFrom_def Let_def min_def)

lemma chain_bounds: "chain p rs n \<Longrightarrow> p \<le> n"
proof (induction rs arbitrary: p)
  case Nil
  then show ?case by simp
next
  case (Cons r rs)
  from Cons.prems have "chain (nat (r_end r)) rs n" by simp
  from Cons.IH[OF this] Cons.prems show ?case by auto
qed

lemma chain_ConsD:
  assumes "chain p (r # rs) n"
  shows "int p \<le> r_start r" and "r_start r \<le> r_end r" and "chain (nat (r_end r)) rs n"
  using assms by simp_all

lemma chain_lower: "chain p rs n \<Longrightarrow> d \<in> set rs \<Longrightarrow> int p \<le> r_start d"
proof (induction rs arbitrary: p)
  case Nil
  then show ?case by simp
next
  case (Cons r rs)
  show ?case
  proof (cases "d = r")
    case True
    with Cons.prems show ?thesis by simp
  next
    case False
    with Cons.prems have "d \<in> set rs" "chain (nat (r_end r)) rs n" by auto
    from Cons.IH[OF this(2) this(1)] Cons.prems show ?thesis by auto
  qed
qed

text \<open>Splicing the spans of an ascending chain from the last to the first.\<close>

lemma foldr_splice_render:
  "chain p rs (length T) \<Longrightarrow>
   foldr (\<lambda>r res. spliceAt res (r_start r) (r_end r) (r_text r)) rs T = take p T @ renderSpans T p rs"
proof (induction rs arbitrary: p)
  case Nil
  then show ?case by simp
next
  case (Cons r rs)
  let ?X = "foldr (\<lambda>r res. spliceAt res (r_start r) (r_end r) (r_text r)) rs T"
  from Cons.prems have s: "int p \<le> r_start r" "r_start r \<le> r_end r"
    and ch: "chain (nat (r_end r)) rs (length T)" by auto
  from chain_bounds[OF ch] have eT: "nat (r_end r) \<le> length T" .
  from Cons.IH[OF ch] have X: "?X = take (nat (r_end r)) T @ renderSpans T (nat (r_end r)) rs" .
  from s have nn: "0 \<le> r_start r" "0 \<le> r_end r" by auto
  from s have le: "nat (r_start r) \<le> nat (r_end r)" by auto
  have "spliceAt ?X (r_start r) (r_end r) (r_text r) =
        take (nat (r_start r)) ?X @ r_text r @ drop (nat (r_end r)) ?X"
    by (rule spliceAt_nat[OF nn])
  also have "take (nat (r_start r)) ?X = take (nat (r_start r)) T"
    using le eT by (simp add: X min_def)
  also have "drop (nat (r_end r)) ?X = renderSpans T (nat (r_end r)) rs"
    using eT by (simp add: X)
  also have "take (nat (r_start r)) T = take p T @ take (nat (r_start r) - p) (drop p T)"
  proof -
    from s have "p \<le> nat (r_start r)" by auto
    then show ?thesis
      by (metis le_add_diff_inverse take_add)
  qed
  finally show ?case by simp
qed

lemma sorted_rev_neg:
  "sorted (map g xs) \<Longrightarrow> sorted (map (\<lambda>x. - g x) (rev xs))" for g :: "'a \<Rightarrow> int"
  by (induction xs) (auto simp: sorted_append)

lemma sort_desc_rev:
  assumes "distinct (map r_start R)"
  shows "sort_key (\<lambda>r. - r_start r) R = rev (sort_key r_start R)"
proof (rule sort_key_inj_key_eq)
  show "mset R = mset (rev (sort_key r_start R))" by simp
  from assms have "inj_on r_start (set R)" by (simp add: distinct_map)
  then show "inj_on (\<lambda>r. - r_start r) (set R)" by (auto simp: inj_on_def)
  show "sorted (map (\<lambda>r. - r_start r) (rev (sort_key r_start R)))"
    by (rule sorted_rev_neg) simp
qed

lemma nonOverlapping_set:
  "nonOverlapping R \<Longrightarrow> a \<in> set R \<Longrightarrow> b \<in> set R \<Longrightarrow> a \<noteq> b \<Longrightarrow> disjointSpans a b"
  by (induction R) (auto simp: list_all_iff disjointSpans_def)

text \<open>The hypotheses of the claim, on the set of the replacements.\<close>

lemma before_ends:
  assumes "nonOverlapping R" and "\<forall>r \<in> set R. inBounds T r"
    and "a \<in> set R" and "b \<in> set R" and "r_start a < r_start b"
  shows "r_end a \<le> r_start b"
proof -
  from assms(5) have "a \<noteq> b" by auto
  from nonOverlapping_set[OF assms(1,3,4) this] have "disjointSpans a b" .
  moreover from assms(2,4) have "r_start b \<le> r_end b" by (simp add: inBounds_def)
  ultimately show ?thesis using assms(5) by (auto simp: disjointSpans_def)
qed

lemma chain_sorted:
  assumes "sorted (map r_start xs)" and "distinct (map r_start xs)"
    and "\<forall>r \<in> set xs. inBounds T r \<and> int p \<le> r_start r"
    and "\<forall>a \<in> set xs. \<forall>b \<in> set xs. r_start a < r_start b \<longrightarrow> r_end a \<le> r_start b"
    and "p \<le> length T"
  shows "chain p xs (length T)"
  using assms
proof (induction xs arbitrary: p)
  case Nil
  then show ?case by simp
next
  case (Cons r rs)
  from Cons.prems(3) have ib: "inBounds T r" and pr: "int p \<le> r_start r" by auto
  have "chain (nat (r_end r)) rs (length T)"
  proof (rule Cons.IH)
    from Cons.prems(1) show "sorted (map r_start rs)" by simp
    from Cons.prems(2) show "distinct (map r_start rs)" by simp
    show "\<forall>d \<in> set rs. inBounds T d \<and> int (nat (r_end r)) \<le> r_start d"
    proof
      fix d assume d: "d \<in> set rs"
      with Cons.prems(1) have "r_start r \<le> r_start d" by auto
      moreover from d Cons.prems(2) have "r_start r \<noteq> r_start d" by auto
      ultimately have "r_start r < r_start d" by simp
      with Cons.prems(4) d have "r_end r \<le> r_start d" by auto
      moreover from ib have "0 \<le> r_end r" by (simp add: inBounds_def)
      ultimately show "inBounds T d \<and> int (nat (r_end r)) \<le> r_start d"
        using Cons.prems(3) d by simp
    qed
    from Cons.prems(4)
    show "\<forall>a \<in> set rs. \<forall>b \<in> set rs. r_start a < r_start b \<longrightarrow> r_end a \<le> r_start b"
      by simp
    from ib show "nat (r_end r) \<le> length T" by (simp add: inBounds_def nat_le_iff)
  qed
  with ib pr show ?case by (simp add: inBounds_def)
qed

lemma chain_sort_key:
  assumes "nonOverlapping R" and "\<forall>r \<in> set R. inBounds T r" and "distinct (map r_start R)"
  shows "chain 0 (sort_key r_start R) (length T)"
proof (rule chain_sorted)
  show "sorted (map r_start (sort_key r_start R))" by simp
  from assms(3) show "distinct (map r_start (sort_key r_start R))"
    by (simp add: distinct_map)
  from assms(2) show "\<forall>r \<in> set (sort_key r_start R). inBounds T r \<and> int 0 \<le> r_start r"
    by (simp add: inBounds_def)
  show "\<forall>a \<in> set (sort_key r_start R). \<forall>b \<in> set (sort_key r_start R).
          r_start a < r_start b \<longrightarrow> r_end a \<le> r_start b"
    using before_ends[OF assms(1,2)] by simp
  show "0 \<le> length T" by simp
qed

text \<open>The program's result is the simultaneous replacement.\<close>

lemma applyReplacementsToContent_render:
  assumes "nonOverlapping R" and "\<forall>r \<in> set R. inBounds T r" and "distinct (map r_start R)"
  shows "applyReplacementsToContent T R = renderSpans T 0 (sort_key r_start R)"
proof -
  have "applyReplacementsToContent T R =
        foldr (\<lambda>r res. spliceAt res (r_start r) (r_end r) (r_text r)) (sort_key r_start R) T"
    by (simp add: applyReplacementsToContent_def sort_desc_rev[OF assms(3)] foldr_conv_foldl)
  also have "\<dots> = take 0 T @ renderSpans T 0 (sort_key r_start R)"
    by (rule foldr_splice_render[OF chain_sort_key[OF assms]])
  finally show ?thesis by simp
qed

text \<open>The growth before an offset does not depend on the order of the list.\<close>

lemma sum_list_mset_cong:
  fixes xs :: "int list"
  assumes "mset xs = mset ys"
  shows "sum_list xs = sum_list ys"
proof -
  from assms have "sum_mset (mset xs) = sum_mset (mset ys)" by simp
  then show ?thesis by (simp only: sum_mset_sum_list)
qed

lemma shiftFor_mset:
  assumes "mset xs = mset ys"
  shows "shiftFor r xs = shiftFor r ys"
proof -
  let ?g = "\<lambda>d. int (length (r_text d)) - (r_end d - r_start d)"
  let ?P = "\<lambda>d. r_start d < r_start r"
  from assms have "mset (filter ?P xs) = mset (filter ?P ys)"
    by (simp only: mset_filter)
  then have "mset (map ?g (filter ?P xs)) = mset (map ?g (filter ?P ys))"
    by (simp only: mset_map)
  from sum_list_mset_cong[OF this] show ?thesis by (simp only: shiftFor_def)
qed

lemma shiftFor_none:
  "\<forall>d \<in> set ds. r_start r \<le> r_start d \<Longrightarrow> shiftFor r ds = 0"
proof -
  assume "\<forall>d \<in> set ds. r_start r \<le> r_start d"
  then have "filter (\<lambda>d. r_start d < r_start r) ds = []"
    by (auto simp: filter_empty_conv)
  then show ?thesis by (simp add: shiftFor_def)
qed

lemma shiftFor_Cons:
  "shiftFor r (d # ds) =
     (if r_start d < r_start r then int (length (r_text d)) - (r_end d - r_start d) else 0)
     + shiftFor r ds"
  by (simp add: shiftFor_def)

lemma posOf_shift:
  "chain p (insort_key r_start r ds) n \<Longrightarrow> r_start r \<notin> r_start ` set ds \<Longrightarrow>
     int (posOf p r ds) = r_start r - int p + shiftFor r ds"
proof (induction ds arbitrary: p)
  case Nil
  then have "chain p [r] n" by simp
  from chain_ConsD(1)[OF this] have "int p \<le> r_start r" .
  then have "int (nat (r_start r) - p) = r_start r - int p" by linarith
  then show ?case by (simp add: shiftFor_def)
next
  case (Cons d ds)
  show ?case
  proof (cases "r_start r \<le> r_start d")
    case True
    then have ins: "insort_key r_start r (d # ds) = r # d # ds" by simp
    from Cons.prems(1) have ch: "chain p (r # d # ds) n" unfolding ins .
    note c1 = chain_ConsD[OF ch]
    note c2 = chain_ConsD[OF c1(3)]
    note pr = c1(1) and chd = c2(3) and de = c2(2)
    have "\<forall>x \<in> set (d # ds). r_start r \<le> r_start x"
    proof
      fix x assume "x \<in> set (d # ds)"
      then consider "x = d" | "x \<in> set ds" by auto
      then show "r_start r \<le> r_start x"
      proof cases
        case 1
        with True show ?thesis by simp
      next
        case 2
        from chain_lower[OF chd 2] have "int (nat (r_end d)) \<le> r_start x" .
        with de True show ?thesis by linarith
      qed
    qed
    from shiftFor_none[OF this] have sh: "shiftFor r (d # ds) = 0" .
    from True have pos: "posOf p r (d # ds) = nat (r_start r) - p" by simp
    from pr have "int (nat (r_start r) - p) = r_start r - int p" by linarith
    with sh pos show ?thesis by simp
  next
    case False
    then have ins: "insort_key r_start r (d # ds) = d # insort_key r_start r ds" by simp
    from Cons.prems(1) have ch: "chain p (d # insort_key r_start r ds) n" unfolding ins .
    note c1 = chain_ConsD[OF ch]
    note pd = c1(1) and de = c1(2) and ch' = c1(3)
    from Cons.prems(2) have "r_start r \<notin> r_start ` set ds" by simp
    from Cons.IH[OF ch' this]
    have ih: "int (posOf (nat (r_end d)) r ds) = r_start r - int (nat (r_end d)) + shiftFor r ds" .
    from pd de have a: "int (nat (r_end d)) = r_end d" by linarith
    from pd have b: "int (nat (r_start d) - p) = r_start d - int p" by linarith
    from False have pos: "posOf p r (d # ds) =
        (nat (r_start d) - p) + length (r_text d) + posOf (nat (r_end d)) r ds" by simp
    from False have sh: "shiftFor r (d # ds) =
        int (length (r_text d)) - (r_end d - r_start d) + shiftFor r ds"
      by (simp add: shiftFor_Cons)
    have "int (posOf p r (d # ds)) =
          (r_start d - int p) + int (length (r_text d)) + (r_start r - r_end d + shiftFor r ds)"
      unfolding pos of_nat_add ih a b ..
    then show ?thesis unfolding sh by linarith
  qed
qed

lemma take_append_le: "k \<le> length A \<Longrightarrow> take k (A @ R) = take k A"
  by simp

lemma drop_append_le: "k \<le> length A \<Longrightarrow> drop k (A @ R) = drop k A @ R"
  by simp

lemma take_take_le: "k \<le> m \<Longrightarrow> take k (take m xs) = take k xs"
  by (simp add: min_def)

lemma drop_take_drop:
  "p \<le> e \<Longrightarrow> drop (e - p) (take (d - p) (drop p xs)) = take (d - e) (drop e xs)"
  by (simp add: drop_take)

lemma take_length_plus: "take (length U + k) (U @ Y) = U @ take k Y"
  by simp

lemma drop_length_plus: "drop (length U + k + l) (U @ Y) = drop (k + l) Y"
  by (simp add: add.assoc)

lemma render_insort:
  "chain p (insort_key r_start r ds) (length T) \<Longrightarrow> chain p ds (length T) \<Longrightarrow>
   r_start r \<notin> r_start ` set ds \<Longrightarrow>
     renderSpans T p (insort_key r_start r ds) =
       take (posOf p r ds) (renderSpans T p ds) @ r_text r @
       drop (posOf p r ds + (nat (r_end r) - nat (r_start r))) (renderSpans T p ds)"
proof (induction ds arbitrary: p)
  case Nil
  then have "chain p [r] (length T)" by simp
  from chain_ConsD(1,2)[OF this] have "int p \<le> r_start r" "r_start r \<le> r_end r" .
  then have "p + (nat (r_start r) - p + (nat (r_end r) - nat (r_start r))) = nat (r_end r)"
    by linarith
  then show ?case by simp
next
  case (Cons d ds)
  note cd = chain_ConsD[OF Cons.prems(2)]
  note pd = cd(1) and de = cd(2) and chd = cd(3)
  from chain_bounds[OF chd] de pd have dT: "nat (r_start d) \<le> length T" by linarith
  let ?A = "take (nat (r_start d) - p) (drop p T)"
  from dT have "nat (r_start d) - p \<le> length T - p" by linarith
  then have lenA: "length ?A = nat (r_start d) - p" by simp
  show ?case
  proof (cases "r_start r \<le> r_start d")
    case True
    then have ins: "insort_key r_start r (d # ds) = r # d # ds" by simp
    from Cons.prems(1) have ch: "chain p (r # d # ds) (length T)" unfolding ins .
    note c1 = chain_ConsD[OF ch]
    note c2 = chain_ConsD[OF c1(3)]
    note pr = c1(1) and re = c1(2) and rd = c2(1)
    from pr re rd have le1: "nat (r_start r) - p \<le> nat (r_start d) - p" by linarith
    from pr re rd have le2: "nat (r_end r) - p \<le> nat (r_start d) - p" by linarith
    from pr re have sum: "nat (r_start r) - p + (nat (r_end r) - nat (r_start r)) = nat (r_end r) - p"
      by linarith
    from pr re have pe: "p + (nat (r_end r) - p) = nat (r_end r)" by linarith
    from rd pr re have diff: "nat (r_start d) - p - (nat (r_end r) - p) = nat (r_start d) - nat (r_end r)"
      by linarith
    have X: "renderSpans T p (d # ds) = ?A @ r_text d @ renderSpans T (nat (r_end d)) ds" by simp
    from le1 have kA: "nat (r_start r) - p \<le> length ?A" unfolding lenA .
    from le2 have eA: "nat (r_end r) - p \<le> length ?A" unfolding lenA .
    from pr re have pe': "p \<le> nat (r_end r)" by linarith
    have t: "take (nat (r_start r) - p) (renderSpans T p (d # ds)) = take (nat (r_start r) - p) (drop p T)"
      unfolding X take_append_le[OF kA] by (rule take_take_le[OF le1])
    have dr: "drop (nat (r_end r) - p) (renderSpans T p (d # ds)) = renderSpans T (nat (r_end r)) (d # ds)"
      unfolding X drop_append_le[OF eA] drop_take_drop[OF pe'] by simp
    from True have pos: "posOf p r (d # ds) = nat (r_start r) - p" by simp
    show ?thesis unfolding ins pos sum t dr by (simp only: renderSpans.simps)
  next
    case False
    then have ins: "insort_key r_start r (d # ds) = d # insort_key r_start r ds" by simp
    from Cons.prems(1) have ch: "chain p (d # insort_key r_start r ds) (length T)" unfolding ins .
    note ch' = chain_ConsD(3)[OF ch]
    from Cons.prems(3) have nin: "r_start r \<notin> r_start ` set ds" by simp
    note ih = Cons.IH[OF ch' chd nin]
    let ?Y = "renderSpans T (nat (r_end d)) ds"
    let ?k = "posOf (nat (r_end d)) r ds"
    let ?l = "nat (r_end r) - nat (r_start r)"
    have X: "renderSpans T p (d # ds) = (?A @ r_text d) @ ?Y" by simp
    from False have "posOf p r (d # ds) = (nat (r_start d) - p) + length (r_text d) + ?k"
      by simp
    then have k: "posOf p r (d # ds) = length (?A @ r_text d) + ?k"
      unfolding length_append lenA .
    have tk: "take (posOf p r (d # ds)) (renderSpans T p (d # ds)) = (?A @ r_text d) @ take ?k ?Y"
      unfolding X k by (rule take_length_plus)
    have dk: "drop (posOf p r (d # ds) + ?l) (renderSpans T p (d # ds)) = drop (?k + ?l) ?Y"
      unfolding X k by (rule drop_length_plus)
    have "renderSpans T p (insort_key r_start r (d # ds)) =
            (?A @ r_text d) @ renderSpans T (nat (r_end d)) (insort_key r_start r ds)"
      unfolding ins by (simp only: renderSpans.simps append_assoc)
    also have "\<dots> = (?A @ r_text d) @ (take ?k ?Y @ r_text r @ drop (?k + ?l) ?Y)"
      by (simp only: ih)
    also have "\<dots> = take (posOf p r (d # ds)) (renderSpans T p (d # ds)) @ r_text r @
                      drop (posOf p r (d # ds) + ?l) (renderSpans T p (d # ds))"
      by (simp only: tk dk append_assoc)
    finally show ?thesis .
  qed
qed

text \<open>
  Applying the replacements one at a time, each at its original offsets shifted by what
  was applied before it, builds the simultaneous replacement.
\<close>

lemma applyInOrderFrom_render:
  assumes "distinct (map r_start (rev rs @ applied))"
    and "\<forall>r \<in> set (rev rs @ applied). inBounds T r"
    and "\<forall>a \<in> set (rev rs @ applied). \<forall>b \<in> set (rev rs @ applied).
           r_start a < r_start b \<longrightarrow> r_end a \<le> r_start b"
    and "cur = renderSpans T 0 (sort_key r_start applied)"
  shows "applyInOrderFrom cur applied rs = renderSpans T 0 (sort_key r_start (rev rs @ applied))"
  using assms
proof (induction rs arbitrary: cur applied)
  case Nil
  then show ?case by simp
next
  case (Cons r rs)
  let ?ds = "sort_key r_start applied"
  let ?k = "posOf 0 r ?ds"
  let ?l = "nat (r_end r) - nat (r_start r)"
  from Cons.prems(2) have ib: "inBounds T r" by simp
  from Cons.prems(1) have nin: "r_start r \<notin> r_start ` set ?ds" by auto
  have ch: "chain 0 ?ds (length T)"
  proof (rule chain_sorted)
    show "sorted (map r_start ?ds)" by simp
    from Cons.prems(1) show "distinct (map r_start ?ds)" by (simp add: distinct_map)
    from Cons.prems(2) show "\<forall>r \<in> set ?ds. inBounds T r \<and> int 0 \<le> r_start r"
      by (simp add: inBounds_def)
    from Cons.prems(3)
    show "\<forall>a \<in> set ?ds. \<forall>b \<in> set ?ds. r_start a < r_start b \<longrightarrow> r_end a \<le> r_start b"
      by simp
    show "0 \<le> length T" by simp
  qed
  have ch': "chain 0 (insort_key r_start r ?ds) (length T)"
  proof (rule chain_sorted)
    show "sorted (map r_start (insort_key r_start r ?ds))" by (simp add: sorted_insort_key)
    from Cons.prems(1) show "distinct (map r_start (insort_key r_start r ?ds))"
      by (auto simp: distinct_map distinct_insort set_insort_key)
    from Cons.prems(2)
    show "\<forall>x \<in> set (insort_key r_start r ?ds). inBounds T x \<and> int 0 \<le> r_start x"
      by (simp add: inBounds_def set_insort_key)
    from Cons.prems(3)
    show "\<forall>a \<in> set (insort_key r_start r ?ds). \<forall>b \<in> set (insort_key r_start r ?ds).
            r_start a < r_start b \<longrightarrow> r_end a \<le> r_start b"
      by (simp add: set_insort_key)
    show "0 \<le> length T" by simp
  qed
  have sh: "shiftFor r applied = shiftFor r ?ds"
    by (rule shiftFor_mset) simp
  from posOf_shift[OF ch' nin] have k: "int ?k = r_start r + shiftFor r applied"
    by (simp add: sh)
  from ib have "0 \<le> r_start r" "r_start r \<le> r_end r" by (simp_all add: inBounds_def)
  then have "int ?l = r_end r - r_start r" by linarith
  moreover have "int (?k + ?l) = int ?k + int ?l" by (rule of_nat_add)
  ultimately have k': "int (?k + ?l) = r_end r + shiftFor r applied" using k by linarith
  have "spliceAt cur (r_start r + shiftFor r applied) (r_end r + shiftFor r applied) (r_text r) =
        spliceAt cur (int ?k) (int (?k + ?l)) (r_text r)"
    by (simp only: k k')
  also have "\<dots> = take (nat (int ?k)) cur @ r_text r @ drop (nat (int (?k + ?l))) cur"
    by (rule spliceAt_nat) simp_all
  also have "\<dots> = take ?k cur @ r_text r @ drop (?k + ?l) cur"
    by (simp only: nat_int)
  also have "\<dots> = renderSpans T 0 (insort_key r_start r ?ds)"
    unfolding Cons.prems(4) by (rule render_insort[OF ch' ch nin, symmetric])
  finally have cur': "spliceAt cur (r_start r + shiftFor r applied) (r_end r + shiftFor r applied)
        (r_text r) = renderSpans T 0 (sort_key r_start (r # applied))"
    by simp
  have "applyInOrderFrom cur applied (r # rs) =
        applyInOrderFrom (renderSpans T 0 (sort_key r_start (r # applied))) (r # applied) rs"
    by (simp only: applyInOrderFrom.simps cur')
  also have "\<dots> = renderSpans T 0 (sort_key r_start (rev rs @ r # applied))"
  proof (rule Cons.IH)
    from Cons.prems(1) show "distinct (map r_start (rev rs @ r # applied))" by simp
    from Cons.prems(2) show "\<forall>x \<in> set (rev rs @ r # applied). inBounds T x" by simp
    from Cons.prems(3)
    show "\<forall>a \<in> set (rev rs @ r # applied). \<forall>b \<in> set (rev rs @ r # applied).
            r_start a < r_start b \<longrightarrow> r_end a \<le> r_start b"
      by simp
    show "renderSpans T 0 (sort_key r_start (r # applied)) = renderSpans T 0 (sort_key r_start (r # applied))"
      by (rule refl)
  qed
  also have "rev rs @ r # applied = rev (r # rs) @ applied" by simp
  finally show ?case .
qed

text \<open>
  C2, as stated: two insertions at the same offset are in bounds and do not overlap
  (both spans are empty), yet the result depends on the order in which they are
  applied. On \<open>ab\<close> with \<open>x\<close> and \<open>y\<close> inserted at offset 1 the program gives \<open>ayxb\<close>
  for one order of its list and \<open>axyb\<close> for the other.
\<close>

theorem applyReplacements_same_start_counterexample:
  "inBounds (asc ''ab'') \<lparr>r_start = 1, r_end = 1, r_text = asc ''x''\<rparr> \<and>
   inBounds (asc ''ab'') \<lparr>r_start = 1, r_end = 1, r_text = asc ''y''\<rparr> \<and>
   nonOverlapping [\<lparr>r_start = 1, r_end = 1, r_text = asc ''x''\<rparr>,
                   \<lparr>r_start = 1, r_end = 1, r_text = asc ''y''\<rparr>] \<and>
   applyReplacementsToContent (asc ''ab'')
     [\<lparr>r_start = 1, r_end = 1, r_text = asc ''x''\<rparr>,
      \<lparr>r_start = 1, r_end = 1, r_text = asc ''y''\<rparr>] = asc ''ayxb'' \<and>
   applyReplacementsToContent (asc ''ab'')
     [\<lparr>r_start = 1, r_end = 1, r_text = asc ''y''\<rparr>,
      \<lparr>r_start = 1, r_end = 1, r_text = asc ''x''\<rparr>] = asc ''axyb'' \<and>
   applyInOrder (asc ''ab'')
     [\<lparr>r_start = 1, r_end = 1, r_text = asc ''y''\<rparr>,
      \<lparr>r_start = 1, r_end = 1, r_text = asc ''x''\<rparr>] = asc ''axyb''"
  by (simp add: inBounds_def disjointSpans_def applyReplacementsToContent_def spliceAt_def
        slice_def sliceFrom_def applyInOrder_def shiftFor_def asc_def Let_def)

text \<open>
  C2, amended: for replacements that are in bounds, do not overlap and start at
  pairwise different offsets, \<open>applyReplacementsToContent\<close> gives the same text as
  applying them one at a time in any order, each at its offsets in the original text.
\<close>

theorem applyReplacementsToContent_any_order:
  assumes "\<forall>r \<in> set R. inBounds T r" and "nonOverlapping R"
    and "distinct (map r_start R)" and "mset order = mset R"
  shows "applyReplacementsToContent T R = applyInOrder T order"
proof -
  from assms(4) have set_eq: "set order = set R" by (rule mset_eq_setD)
  from assms(4) have "mset (map r_start order) = mset (map r_start R)" by simp
  from mset_eq_imp_distinct_iff[OF this] assms(3) have dist: "distinct (map r_start order)"
    by simp
  have "applyInOrder T order = applyInOrderFrom (renderSpans T 0 (sort_key r_start [])) [] order"
    by (simp add: applyInOrder_def)
  also have "\<dots> = renderSpans T 0 (sort_key r_start (rev order @ []))"
  proof (rule applyInOrderFrom_render)
    from dist show "distinct (map r_start (rev order @ []))" by (simp add: rev_map[symmetric])
    from assms(1) set_eq show "\<forall>r \<in> set (rev order @ []). inBounds T r" by simp
    from before_ends[OF assms(2,1)] set_eq
    show "\<forall>a \<in> set (rev order @ []). \<forall>b \<in> set (rev order @ []).
            r_start a < r_start b \<longrightarrow> r_end a \<le> r_start b"
      by simp
    show "renderSpans T 0 (sort_key r_start []) = renderSpans T 0 (sort_key r_start [])" by (rule refl)
  qed
  also have "sort_key r_start (rev order @ []) = sort_key r_start R"
  proof (rule sort_key_eq_sort_key)
    from assms(4) show "mset (rev order @ []) = mset R" by simp
    from dist show "inj_on r_start (set (rev order @ []))" by (simp add: distinct_map)
  qed
  also have "renderSpans T 0 (sort_key r_start R) = applyReplacementsToContent T R"
    by (rule applyReplacementsToContent_render[OF assms(2,1,3), symmetric])
  finally show ?thesis by (rule sym)
qed

theorem applyReplacementsToContent_any_order_witness:
  "inBounds (asc ''abc'') \<lparr>r_start = 0, r_end = 1, r_text = asc ''xy''\<rparr> \<and>
   inBounds (asc ''abc'') \<lparr>r_start = 2, r_end = 3, r_text = []\<rparr> \<and>
   nonOverlapping [\<lparr>r_start = 0, r_end = 1, r_text = asc ''xy''\<rparr>,
                   \<lparr>r_start = 2, r_end = 3, r_text = []\<rparr>] \<and>
   distinct (map r_start [\<lparr>r_start = 0, r_end = 1, r_text = asc ''xy''\<rparr>,
                          \<lparr>r_start = 2, r_end = 3, r_text = []\<rparr>]) \<and>
   mset [\<lparr>r_start = 2, r_end = 3, r_text = []\<rparr>,
         \<lparr>r_start = 0, r_end = 1, r_text = asc ''xy''\<rparr>] =
   mset [\<lparr>r_start = 0, r_end = 1, r_text = asc ''xy''\<rparr>,
         \<lparr>r_start = 2, r_end = 3, r_text = []\<rparr>] \<and>
   applyReplacementsToContent (asc ''abc'')
     [\<lparr>r_start = 0, r_end = 1, r_text = asc ''xy''\<rparr>,
      \<lparr>r_start = 2, r_end = 3, r_text = []\<rparr>] =
   applyInOrder (asc ''abc'')
     [\<lparr>r_start = 2, r_end = 3, r_text = []\<rparr>,
      \<lparr>r_start = 0, r_end = 1, r_text = asc ''xy''\<rparr>] \<and>
   applyInOrder (asc ''abc'')
     [\<lparr>r_start = 2, r_end = 3, r_text = []\<rparr>,
      \<lparr>r_start = 0, r_end = 1, r_text = asc ''xy''\<rparr>] = asc ''xyb''"
proof -
  let ?a = "\<lparr>r_start = 0, r_end = 1, r_text = asc ''xy''\<rparr>"
  let ?b = "\<lparr>r_start = 2, r_end = 3, r_text = []\<rparr>"
  have h1: "\<forall>r \<in> set [?a, ?b]. inBounds (asc ''abc'') r" by (simp add: inBounds_def asc_def)
  have h2: "nonOverlapping [?a, ?b]" by (simp add: disjointSpans_def)
  have h3: "distinct (map r_start [?a, ?b])" by simp
  have h4: "mset [?b, ?a] = mset [?a, ?b]" by (simp only: mset.simps add_mset_commute)
  have v: "applyInOrder (asc ''abc'') [?b, ?a] = asc ''xyb''"
    by (simp add: applyInOrder_def spliceAt_def slice_def sliceFrom_def shiftFor_def asc_def
          Let_def)
  from h1 have h1': "inBounds (asc ''abc'') ?a" "inBounds (asc ''abc'') ?b" by simp_all
  from applyReplacementsToContent_any_order[OF h1 h2 h3 h4] h1' h2 h3 h4 v show ?thesis
    by (simp only: simp_thms)
qed

section \<open>Properties of withTimeout and validateMermaidAsync\<close>

lemma timerDelay_in_range: "0 \<le> ms \<Longrightarrow> ms \<le> 2147483647 \<Longrightarrow> timerDelay ms = nat ms"
  by (simp add: timerDelay_def toInt32_def Let_def)

lemma timerDelay_overflow:
  "2147483647 < ms \<Longrightarrow> ms < 4294967296 \<Longrightarrow> timerDelay ms = 0"
  by (simp add: timerDelay_def toInt32_def Let_def)

text \<open>
  C10. For every promise \<open>p\<close> and every \<open>ms \<le> 0\<close>, \<open>withTimeout\<close> returns \<open>p\<close> itself, arms
  no timer and never aborts. For \<open>ms > 0\<close> the timer is armed and the promise races
  against the timeout rejection, which comes with the abort: the promise wins when it
  settles no later than the timer is due, which is after \<open>ms\<close> when \<open>ms\<close> fits the 32
  bits of the timer, and at once from 2147483648 to 4294967295. So a correction call
  whose request gets no reply never returns under a non-positive timeout, and fails
  with the timeout error under every positive one.
\<close>

theorem withTimeout_nonpositive_unbounded:
  "(ms \<le> 0 \<longrightarrow> withTimeout p ms c = \<lparr>outcome = p, timer = None, aborted = None\<rparr>) \<and>
   (0 < ms \<longrightarrow>
      timer (withTimeout p ms c) = Some ms \<and>
      outcome (withTimeout p ms c) =
        (if settlesInTime p (timerDelay ms) then p
         else Rejects (timerDelay ms) timeoutMessage) \<and>
      aborted (withTimeout p ms c) =
        (if settlesInTime p (timerDelay ms) \<or> \<not> c then None else Some (timerDelay ms))) \<and>
   (0 < ms \<and> ms \<le> 2147483647 \<longrightarrow> timerDelay ms = nat ms) \<and>
   (2147483647 < ms \<and> ms < 4294967296 \<longrightarrow> timerDelay ms = 0) \<and>
   (orElse (fixMemo w (memoKey apiVersion model (inferDiagramType original)
              (preNormalizeMermaid_gemini original) errorMsg)) [] = [] \<and>
    isWellFormed model \<and> isWellFormed apiKey \<and> net e (calls w) = NoReply \<longrightarrow>
      fst (geminiFixSingle e apiKey model original errorMsg ms apiVersion w) =
        (if ms \<le> 0 then Hangs else Throws timeoutMessage))"
  by (simp add: withTimeout_def geminiFixSingle_def callGeminiSingle_def settlesInTime_def
        Let_def timerDelay_in_range timerDelay_overflow)

text \<open>
  C10 on examples: no timer for the delay 0; with the delay 5 a promise due at 9 loses
  and one due at 2 or at 5 wins; with the delay 2147483648 a promise due at 50 loses
  at once; a request without a reply hangs under the timeout 0 and fails under 30000.
\<close>

theorem withTimeout_nonpositive_unbounded_witness:
  "withTimeout (Fulfils 9 [97::nat]) 0 True =
     \<lparr>outcome = Fulfils 9 [97::nat], timer = None, aborted = None\<rparr> \<and>
   outcome (withTimeout (Fulfils 9 [97::nat]) 5 True) = Rejects 5 timeoutMessage \<and>
   aborted (withTimeout (Fulfils 9 [97::nat]) 5 True) = Some 5 \<and>
   outcome (withTimeout (Fulfils 2 [97::nat]) 5 True) = Fulfils 2 [97::nat] \<and>
   aborted (withTimeout (Fulfils 2 [97::nat]) 5 True) = None \<and>
   outcome (withTimeout (Fulfils 5 [97::nat]) 5 True) = Fulfils 5 [97::nat] \<and>
   aborted (withTimeout (Fulfils 5 [97::nat]) 5 True) = None \<and>
   timerDelay 2147483648 = 0 \<and>
   outcome (withTimeout (Fulfils 50 [97::nat]) 2147483648 True) = Rejects 0 timeoutMessage \<and>
   aborted (withTimeout (Fulfils 50 [97::nat]) 2147483648 True) = Some 0 \<and>
   fst (geminiFixSingle
          \<lparr>net = (\<lambda>k. NoReply), json = (\<lambda>s. None), uriError = [],
            fileChanged = (\<lambda>k. False), decide = (\<lambda>k. Skip)\<rparr>
          [107] [109] [97] [] 0 V1beta \<lparr>fixMemo = Map.empty, calls = 0\<rparr>) = Hangs \<and>
   fst (geminiFixSingle
          \<lparr>net = (\<lambda>k. NoReply), json = (\<lambda>s. None), uriError = [],
            fileChanged = (\<lambda>k. False), decide = (\<lambda>k. Skip)\<rparr>
          [107] [109] [97] [] 30000 V1beta \<lparr>fixMemo = Map.empty, calls = 0\<rparr>) =
     Throws timeoutMessage"
proof -
  note T = withTimeout_nonpositive_unbounded
      [where w = "\<lparr>fixMemo = Map.empty, calls = 0\<rparr>" and apiVersion = V1beta
         and model = "[109]" and original = "[97]" and errorMsg = "[]" and apiKey = "[107]"
         and c = True
         and e = "\<lparr>net = (\<lambda>k. NoReply), json = (\<lambda>s. None), uriError = [],
            fileChanged = (\<lambda>k. False), decide = (\<lambda>k. Skip)\<rparr>"]
  have d5: "timerDelay 5 = 5" and d31: "timerDelay 2147483648 = 0"
    using T[where ms = 5 and p = "Fulfils 9 [97::nat]"]
      T[where ms = 2147483648 and p = "Fulfils 50 [97::nat]"]
    by simp_all
  show ?thesis
    using T[where ms = 0 and p = "Fulfils 9 [97::nat]"]
      T[where ms = 5 and p = "Fulfils 9 [97::nat]"]
      T[where ms = 5 and p = "Fulfils 2 [97::nat]"]
      T[where ms = 5 and p = "Fulfils 5 [97::nat]"]
      T[where ms = 2147483648 and p = "Fulfils 50 [97::nat]"]
      T[where ms = 30000 and p = "Fulfils 2 [97::nat]"]
    by (simp add: settlesInTime_def orElse_def d5 d31)
qed

text \<open>
  C8. Whatever the parser does (returning, rejecting, throwing, reporting errors,
  assigning the hook itself), a call of \<open>validateMermaidAsync\<close> that completes leaves
  the mermaid object, and with it \<open>parseError\<close>, as it was before the call; and the call
  completes unless the parser's promise never settles.
\<close>

theorem validateMermaidAsync_restores_parseError:
  "(validateMermaidAsync n w src = Some (v, w') \<longrightarrow>
      map_option parseError w' = map_option parseError w \<and> w' = w) \<and>
   ((\<forall>m f. w = Some m \<and> entryPoint m = Some f \<longrightarrow>
        ending (f (preNormalizeMermaid src)) \<noteq> Stalls) \<longrightarrow>
      validateMermaidAsync n w src \<noteq> None)"
  by (auto simp: validateMermaidAsync_def Let_def split: option.splits ending.splits)

theorem validateMermaidAsync_restores_parseError_witness:
  "validateMermaidAsync 3
     (Some \<lparr>parseError = HostHandler 1,
            parse = Some (\<lambda>c. \<lparr>events = [Report \<lparr>e_str = Some [120], e_message = None,
                                                    e_string = []\<rparr>,
                                           SetHook (HostHandler 7)],
                                 ending = Thrown \<lparr>e_str = None, e_message = Some [121],
                                                  e_string = []\<rparr>\<rparr>),
            apiParse = None, render = None\<rparr>) [97] =
   Some (\<lparr>ok = False, error = Some [121]\<rparr>,
         Some \<lparr>parseError = HostHandler 1,
            parse = Some (\<lambda>c. \<lparr>events = [Report \<lparr>e_str = Some [120], e_message = None,
                                                    e_string = []\<rparr>,
                                           SetHook (HostHandler 7)],
                                 ending = Thrown \<lparr>e_str = None, e_message = Some [121],
                                                  e_string = []\<rparr>\<rparr>),
            apiParse = None, render = None\<rparr>)"
  using validateMermaidAsync_restores_parseError
      [of 3 "Some \<lparr>parseError = HostHandler 1,
            parse = Some (\<lambda>c. \<lparr>events = [Report \<lparr>e_str = Some [120], e_message = None,
                                                    e_string = []\<rparr>,
                                           SetHook (HostHandler 7)],
                                 ending = Thrown \<lparr>e_str = None, e_message = Some [121],
                                                  e_string = []\<rparr>\<rparr>),
            apiParse = None, render = None\<rparr>" "[97]"]
  by (auto simp: validateMermaidAsync_def entryPoint_def errText_def Let_def)

section \<open>Properties of the normalizations and of preserveInitIfNeeded\<close>

lemma scan_none: "(\<forall>i. matches fl t r (i, Map.empty) = []) \<Longrightarrow> scan fl t r n k = None"
  by (induction n arbitrary: k) simp_all

lemma search_none: "(\<forall>i. matches fl t r (i, Map.empty) = []) \<Longrightarrow> search fl t r k = None"
  by (simp add: search_def scan_none)

lemma replaceAll_no_match:
  "(\<forall>i. matches fl t r (i, Map.empty) = []) \<Longrightarrow> replaceAll fl r f t = t"
  by (simp add: replaceAll_def replaceLoop.simps search_none)

lemma take_drop_join: "a \<le> b \<Longrightarrow> take (b - a) (drop a xs) @ drop b xs = drop a xs"
proof -
  assume "a \<le> b"
  then have "drop b xs = drop (b - a) (drop a xs)" by simp
  then show ?thesis by (simp only: append_take_drop_id)
qed

text \<open>A replacement function that returns what was matched changes nothing.\<close>

lemma replaceLoop_identity:
  "(\<forall>m. f m = matched t m) \<Longrightarrow> prev \<le> lastIndex \<Longrightarrow>
     replaceLoop fl r f t lastIndex prev = drop prev t"
proof (induction fl r f t lastIndex prev rule: replaceLoop.induct)
  case (1 fl r f t lastIndex prev)
  show ?case
  proof (cases "length t < lastIndex")
    case True
    then show ?thesis by (subst replaceLoop.simps) simp
  next
    case False
    show ?thesis
    proof (cases "search fl t r lastIndex")
      case None
      with False show ?thesis by (subst replaceLoop.simps) simp
    next
      case (Some m)
      note sp = search_props[OF Some]
      from sp(3) have le: "mstart m \<le> mstop m" by simp
      let ?next = "max (Suc lastIndex) (if mstop m = mstart m then Suc (mstop m) else mstop m)"
      have "mstop m \<le> ?next" by (auto simp: max_def)
      from "1.IH"[OF False Some "1.prems"(1) this]
      have ih: "replaceLoop fl r f t ?next (mstop m) = drop (mstop m) t" .
      from "1.prems"(2) sp(1) have pm: "prev \<le> mstart m" by simp
      have "replaceLoop fl r f t lastIndex prev =
            substring t prev (mstart m) @ f m @ replaceLoop fl r f t ?next (mstop m)"
        using False Some by (subst replaceLoop.simps) simp
      also have "\<dots> = take (mstart m - prev) (drop prev t) @
                       (take (mstop m - mstart m) (drop (mstart m) t) @ drop (mstop m) t)"
        using "1.prems"(1) by (simp add: ih substring_def matched_def)
      also have "\<dots> = take (mstart m - prev) (drop prev t) @ drop (mstart m) t"
        by (simp only: take_drop_join[OF le])
      also have "\<dots> = drop prev t"
        by (rule take_drop_join[OF pm])
      finally show ?thesis .
    qed
  qed
qed

lemma matches_first_char_absent:
  "c \<notin> set t \<Longrightarrow> matches flags0 t (Seq (Chr c) r) s = []"
  by (auto simp: flags0_def canonicalize_def)

lemma matches_less_than_absent:
  "60 \<notin> set t \<Longrightarrow> matches flagsI t (Seq (Seq (Chr 60) a) b) s = []"
proof -
  assume n: "60 \<notin> set t"
  have "matches flagsI t (Chr 60) s = []"
  proof (cases "fst s < length t")
    case True
    with n have "t ! fst s \<noteq> 60" by (metis nth_mem)
    then have "canonicalize flagsI (t ! fst s) \<noteq> canonicalize flagsI 60"
      by (auto simp: canonicalize_def flagsI_def)
    then show ?thesis by simp
  next
    case False
    then show ?thesis by simp
  qed
  then show ?thesis by simp
qed

lemma test_reBr_absent: "60 \<notin> set l \<Longrightarrow> \<not> test flagsI reBr l"
proof -
  assume n: "60 \<notin> set l"
  have eq: "reBr = Seq (Seq (Chr 60) (Seq (Chr 98) (Seq (Chr 114) Eps)))
                 (seqs [Star True ws, Opt (Chr 47), Star True ws, Chr 62])"
    by (simp add: reBr_def seqs_def lit_def asc_def)
  have "\<forall>i. matches flagsI l reBr (i, Map.empty) = []"
    by (simp only: eq matches_less_than_absent[OF n] simp_thms)
  then show ?thesis by (simp add: test_def search_none)
qed

lemma set_grp_subset: "set (orElse (grp t m k) []) \<subseteq> set t"
proof (cases "mgroups m k")
  case None
  then show ?thesis by (simp add: grp_def orElse_def)
next
  case (Some ab)
  obtain a b where "ab = (a, b)" by (cases ab)
  with Some have "orElse (grp t m k) [] = take (b - a) (drop a t)"
    by (simp add: grp_def orElse_def substring_def)
  moreover have "set (take (b - a) (drop a t)) \<subseteq> set t"
    by (meson set_take_subset set_drop_subset subset_trans)
  ultimately show ?thesis by simp
qed

lemma preNormalizeMermaid_no_less_than:
  assumes "60 \<notin> set s"
  shows "preNormalizeMermaid s = s"
proof -
  have "\<forall>m. normalizeNode s m = matched s m"
  proof
    fix m
    from assms set_grp_subset[of s m 3] have "60 \<notin> set (orElse (grp s m 3) [])" by auto
    from test_reBr_absent[OF this] show "normalizeNode s m = matched s m"
      by (simp add: normalizeNode_def Let_def)
  qed
  from replaceLoop_identity[OF this, of 0 0 flags0 reNode] show ?thesis
    by (simp add: preNormalizeMermaid_def replaceAll_def)
qed

lemma preNormalizeMermaid_gemini_no_bracket:
  assumes "91 \<notin> set s"
  shows "preNormalizeMermaid_gemini s = normalizeSurface s"
proof -
  have b: "reBracket = Seq (Chr 91) (seqs [Grp 1 (Star False anyChar), Chr 93])"
    by (simp add: reBracket_def seqs_def)
  have l: "reLabel = Seq (Chr 91) (seqs [Grp 1 (Star True (Cset True [Ch 93, Ch 10])), Chr 93])"
    by (simp add: reLabel_def seqs_def)
  have "\<forall>i. matches flags0 s reBracket (i, Map.empty) = []"
    by (simp only: b matches_first_char_absent[OF assms] simp_thms)
  then have 1: "replaceAll flags0 reBracket (brInBrackets s) s = s"
    by (rule replaceAll_no_match)
  have "\<forall>i. matches flags0 s reLabel (i, Map.empty) = []"
    by (simp only: l matches_first_char_absent[OF assms] simp_thms)
  then have 2: "replaceAll flags0 reLabel (quoteLabel s) s = s"
    by (rule replaceAll_no_match)
  show ?thesis by (simp add: preNormalizeMermaid_gemini_def Let_def 1 2)
qed

text \<open>The definitions of the patterns, for evaluating the functions on a concrete text.\<close>

lemmas norm_eval = preNormalizeMermaid_def normalizeNode_def reNode_def idChar_def reBr_def
  reQuoted_def backslashN_def preNormalizeMermaid_gemini_def brInBrackets_def quoteLabel_def
  reBracket_def reBrGemini_def reLabel_def reNeedsQuote_def normalizeSurface_def
  preserveInitIfNeeded_def isInitLine_def hasInit_def reNewline_def reInitColon_def
  reHasInit_def

text \<open>
  C7, as stated: on \<open>A[a:b]\<close> the function of utils changes nothing (there is no
  \<open><br>\<close> in the label), while the function of the Gemini module quotes the label.
\<close>

theorem preNormalizeMermaid_differ_counterexample:
  "preNormalizeMermaid (asc ''A[a:b]'') = asc ''A[a:b]'' \<and>
   preNormalizeMermaid_gemini (asc ''A[a:b]'') = asc ''A['' @ [34] @ asc ''a:b'' @ [34] @ asc '']'' \<and>
   preNormalizeMermaid (asc ''A[a:b]'') \<noteq> preNormalizeMermaid_gemini (asc ''A[a:b]'')"
  unfolding preNormalizeMermaid_gemini_def Let_def
  by (simp add: js_eval norm_eval)

text \<open>
  C7, amended: the two functions are different. On a text with neither \<open><\<close> nor \<open>[\<close>
  the function of utils changes nothing and the function of the Gemini module does its
  surface normalization only, so that there the second is the surface normalization of
  the first.
\<close>

theorem preNormalizeMermaid_gemini_vs_utils:
  assumes "60 \<notin> set s" and "91 \<notin> set s"
  shows "preNormalizeMermaid s = s \<and>
         preNormalizeMermaid_gemini s = normalizeSurface (preNormalizeMermaid s)"
  by (simp add: preNormalizeMermaid_no_less_than[OF assms(1)]
        preNormalizeMermaid_gemini_no_bracket[OF assms(2)])

theorem preNormalizeMermaid_gemini_vs_utils_witness:
  "60 \<notin> set (asc ''a b '') \<and> 91 \<notin> set (asc ''a b '') \<and>
   preNormalizeMermaid (asc ''a b '') = asc ''a b '' \<and>
   preNormalizeMermaid_gemini (asc ''a b '') = normalizeSurface (preNormalizeMermaid (asc ''a b '')) \<and>
   normalizeSurface (asc ''a b '') = asc ''a b''"
proof -
  have h1: "60 \<notin> set (asc ''a b '')" by (simp add: asc_def)
  have h2: "91 \<notin> set (asc ''a b '')" by (simp add: asc_def)
  have v: "normalizeSurface (asc ''a b '') = asc ''a b''" by (simp add: js_eval norm_eval)
  from preNormalizeMermaid_gemini_vs_utils[OF h1 h2] h1 h2 v show ?thesis by simp
qed

text \<open>
  C6, at the failing input: a label with a colon and a carriage return, \<open>[:\r]\<close>. The
  first pass quotes it; the quoted label holds the carriage return, which \<open>.\<close> does not
  match, so the second pass does not find it already quoted and quotes it again.
\<close>

theorem preNormalizeMermaid_gemini_not_idempotent:
  "preNormalizeMermaid_gemini [91, 58, 13, 93] = [91, 34, 58, 13, 34, 93] \<and>
   preNormalizeMermaid_gemini [91, 34, 58, 13, 34, 93] =
     [91, 34, 92, 34, 58, 13, 92, 34, 34, 93] \<and>
   preNormalizeMermaid_gemini (preNormalizeMermaid_gemini [91, 58, 13, 93]) \<noteq>
     preNormalizeMermaid_gemini [91, 58, 13, 93]"
  unfolding preNormalizeMermaid_gemini_def Let_def
  by (simp add: js_eval norm_eval)

text \<open>
  C5, as stated: the directive line of the original is indented by a space; the result
  starts with the trimmed line, not with the line as it was.
\<close>

theorem preserveInitIfNeeded_verbatim_counterexample:
  "isInitLine (asc '' %%{init:1}%%'') \<and>
   \<not> hasInit (asc ''graph TD'') \<and>
   preserveInitIfNeeded (asc '' %%{init:1}%%'') (asc ''graph TD'') True =
     asc ''%%{init:1}%%'' @ [10] @ asc ''graph TD'' \<and>
   preserveInitIfNeeded (asc '' %%{init:1}%%'') (asc ''graph TD'') True \<noteq>
     asc '' %%{init:1}%%'' @ [10] @ asc ''graph TD''"
  unfolding preserveInitIfNeeded_def Let_def
  by (simp add: js_eval norm_eval)

text \<open>
  A directive with nested braces, as the prompt itself shows one, is not recognized in
  the corrected text: the directive of the original is put in front of it.
\<close>

lemma preserveInitIfNeeded_nested_braces:
  "preserveInitIfNeeded (asc ''%%{init: {}}%%'') (asc ''%%{init: {}}%%'' @ [10] @ asc ''graph LR'') True =
     asc ''%%{init: {}}%%'' @ [10] @ asc ''%%{init: {}}%%'' @ [10] @ asc ''graph LR''"
  unfolding preserveInitIfNeeded_def Let_def
  by (simp add: js_eval norm_eval)

text \<open>
  C5, amended: with preservation enabled, when the original has a directive line (the
  first of its lines, split at \<^verbatim>\<open>\r?\n\<close>, whose trimmed text starts with \<^verbatim>\<open>%%{\<close> and
  that matches \<^verbatim>\<open>init\s*:\<close>) and the corrected text has no directive (no such line and
  no match of \<^verbatim>\<open>%%\{[^}]*init[^}]*\}%%\<close>), the result is that line with the white
  space at its ends trimmed, a newline, and the corrected text; when the corrected text
  matches \<^verbatim>\<open>%%\{[^}]*init[^}]*\}%%\<close>, the result is the corrected text.
\<close>

theorem preserveInitIfNeeded_trimmed_directive:
  "(find isInitLine (split flags0 reNewline original) = Some l \<and>
    \<not> hasInit fixed \<and> find isInitLine (split flags0 reNewline fixed) = None \<longrightarrow>
      preserveInitIfNeeded original fixed True = trim l @ [10] @ fixed) \<and>
   (hasInit fixed \<longrightarrow> preserveInitIfNeeded original fixed True = fixed)"
  by (simp add: preserveInitIfNeeded_def Let_def split: option.splits)

theorem preserveInitIfNeeded_trimmed_directive_witness:
  "find isInitLine (split flags0 reNewline (asc ''graph TD'' @ [13, 10] @ asc '' %%{init : 1}%% '')) =
     Some (asc '' %%{init : 1}%% '') \<and>
   \<not> hasInit (asc ''graph LR'') \<and>
   find isInitLine (split flags0 reNewline (asc ''graph LR'')) = None \<and>
   preserveInitIfNeeded (asc ''graph TD'' @ [13, 10] @ asc '' %%{init : 1}%% '') (asc ''graph LR'') True =
     asc ''%%{init : 1}%%'' @ [10] @ asc ''graph LR'' \<and>
   hasInit (asc ''%%{init:2}%%'') \<and>
   preserveInitIfNeeded (asc ''graph TD'' @ [13, 10] @ asc '' %%{init : 1}%% '') (asc ''%%{init:2}%%'') True =
     asc ''%%{init:2}%%''"
proof -
  let ?O = "asc ''graph TD'' @ [13, 10] @ asc '' %%{init : 1}%% ''"
  have h1: "find isInitLine (split flags0 reNewline ?O) = Some (asc '' %%{init : 1}%% '')"
    by (simp add: js_eval norm_eval)
  have h2: "\<not> hasInit (asc ''graph LR'')" by (simp add: js_eval norm_eval)
  have h3: "find isInitLine (split flags0 reNewline (asc ''graph LR'')) = None"
    by (simp add: js_eval norm_eval)
  have h4: "hasInit (asc ''%%{init:2}%%'')" by (simp add: js_eval norm_eval)
  have t: "trim (asc '' %%{init : 1}%% '') = asc ''%%{init : 1}%%''" by (simp add: js_eval)
  from preserveInitIfNeeded_trimmed_directive
         [of "?O" "asc '' %%{init : 1}%% ''" "asc ''graph LR''"]
       preserveInitIfNeeded_trimmed_directive
         [of "?O" "asc '' %%{init : 1}%% ''" "asc ''%%{init:2}%%''"]
       h1 h2 h3 h4 t
  show ?thesis by simp
qed

section \<open>Properties of the correction client and of the retry loop\<close>

text \<open>
  C9. When a call of \<open>geminiFixSingle\<close> has returned, a later call with the same API
  version, model, inferred diagram type, normalized input and error message returns
  the same string and leaves the state as it is: the count of network calls does not
  move, whatever the network, the key or the timeout of the later call.
\<close>

theorem geminiFixSingle_memo_hit:
  assumes "geminiFixSingle e apiKey model original errorMsg timeoutMs apiVersion w = (Returned out, w')"
    and "inferDiagramType original' = inferDiagramType original"
    and "preNormalizeMermaid_gemini original' = preNormalizeMermaid_gemini original"
  shows "geminiFixSingle e' apiKey' model original' errorMsg timeoutMs' apiVersion w' =
           (Returned out, w')"
proof -
  let ?key = "memoKey apiVersion model (inferDiagramType original)
                (preNormalizeMermaid_gemini original) errorMsg"
  from assms(1) have "fixMemo w' ?key = Some out \<and> out \<noteq> []"
    by (auto simp: geminiFixSingle_def Let_def orElse_def
          split: if_splits prod.splits promise.splits option.splits)
  then show ?thesis
    by (simp add: geminiFixSingle_def Let_def orElse_def assms(2,3))
qed

lemma responseResult_401:
  "responseResult j v 401 body = Inl (authMessage 401 body)"
  by (simp add: responseResult_def)

lemma responseResult_429:
  "responseResult j v 429 body = Inl (rateLimitMessage body)"
  by (simp add: responseResult_def)

lemma hardError_authMessage: "hardError (authMessage status body)"
  by (simp add: hardError_def authMessage_def reHardError_def js_eval)

text \<open>A request that is answered in time with an error status: one call, one error.\<close>

lemma geminiFixWithBackoff_rejected:
  assumes "orElse (fixMemo w (memoKey V1beta model (inferDiagramType cur)
                     (preNormalizeMermaid_gemini cur) err)) [] = []"
    and "isWellFormed model" and "isWellFormed apiKey"
    and "net e (calls w) = Reply t (Response status body)"
    and "responseResult (json e) V1beta status (orElse body []) = Inl msg"
    and "timeoutMs \<le> 0 \<or> t \<le> timerDelay timeoutMs"
  shows "geminiFixWithBackoff e apiKey model cur err timeoutMs w =
           (Throws msg, w\<lparr>calls := Suc (calls w)\<rparr>)"
  using assms
  by (auto simp: geminiFixWithBackoff_def geminiFixSingle_def callGeminiSingle_def
        withTimeout_def settlesInTime_def Let_def)

text \<open>The same request answered too late: one call, the timeout error.\<close>

lemma geminiFixWithBackoff_late:
  assumes "orElse (fixMemo w (memoKey V1beta model (inferDiagramType cur)
                     (preNormalizeMermaid_gemini cur) err)) [] = []"
    and "isWellFormed model" and "isWellFormed apiKey"
    and "net e (calls w) = Reply t (Response status body)"
    and "\<not> (timeoutMs \<le> 0 \<or> t \<le> timerDelay timeoutMs)"
  shows "geminiFixWithBackoff e apiKey model cur err timeoutMs w =
           (Throws timeoutMessage, w\<lparr>calls := Suc (calls w)\<rparr>)"
  using assms
  by (auto simp: geminiFixWithBackoff_def geminiFixSingle_def callGeminiSingle_def
        withTimeout_def settlesInTime_def Let_def split: sum.splits)

lemma not_hard_timeout: "\<not> hardError timeoutMessage"
  by (simp add: hardError_def timeoutMessage_def reHardError_def js_eval)

lemma timerDelay_30000: "timerDelay 30000 = 30000"
  by (simp add: timerDelay_def toInt32_def Let_def)

lemma attemptLoop_throws:
  assumes "geminiFixWithBackoff e (orElse (geminiApiKey S) []) (geminiModel S) cur err
             (requestTimeoutMs S) (client st) = (Throws msg, w)"
  shows "attemptLoop e S b (Suc left) cur err st =
           Some (\<lparr>success = False, fixedCode = None\<rparr>,
                 st\<lparr>client := w, cancelled := (hardError msg \<or> cancelled st)\<rparr>)"
  using assms by simp

lemma cancelled_blocksLoop: "cancelled st \<Longrightarrow> blocksLoop e S rest k st = Some st"
  by (cases rest) auto

text \<open>
  C4. A 401 makes the client raise the authentication error, which the orchestrator
  takes for a hard error: when the answer comes in time (there is no timer, or the
  answer comes no later than the timer of the request is due), the attempt loop ends
  with the run cancelled after that one call; the loop over the blocks ends there, no
  later block is attempted, and the text of the editor is left as it was, whatever had
  been queued.
\<close>

theorem unauthorized_aborts_batch:
  "responseResult j v 401 body' = Inl (authMessage 401 body') \<and>
   hardError (authMessage 401 body') \<and>
   (net e (calls (client st)) = Reply t (Response 401 body) \<and>
    orElse (fixMemo (client st) (memoKey V1beta (geminiModel S) (inferDiagramType cur)
              (preNormalizeMermaid_gemini cur) err)) [] = [] \<and>
    isWellFormed (geminiModel S) \<and> isWellFormed (orElse (geminiApiKey S) []) \<and>
    (requestTimeoutMs S \<le> 0 \<or> t \<le> timerDelay (requestTimeoutMs S)) \<longrightarrow>
      attemptLoop e S b (Suc left) cur err st =
        Some (\<lparr>success = False, fixedCode = None\<rparr>,
              st\<lparr>client := (client st)\<lparr>calls := Suc (calls (client st))\<rparr>,
                 cancelled := True\<rparr>)) \<and>
   (attemptLoop e S b maxAttempts (code b) err0 st0 = Some (res, st1) \<and> cancelled st1 \<and>
    \<not> cancelled st0 \<and> \<not> fileChanged e k \<longrightarrow>
      blocksLoop e S ((b, err0) # rest) k st0 = Some st1) \<and>
   (cancelled st1 \<longrightarrow> blocksLoop e S rest k st1 = Some st1 \<and> finish doc st1 = doc) \<and>
   (runFixWithGemini e S (Some doc) stR = Some (d, st2) \<and> cancelled st2 \<longrightarrow> d = Some doc)"
proof (intro conjI impI)
  show "responseResult j v 401 body' = Inl (authMessage 401 body')"
    by (rule responseResult_401)
  show "hardError (authMessage 401 body')" by (rule hardError_authMessage)
next
  assume h: "net e (calls (client st)) = Reply t (Response 401 body) \<and>
    orElse (fixMemo (client st) (memoKey V1beta (geminiModel S) (inferDiagramType cur)
              (preNormalizeMermaid_gemini cur) err)) [] = [] \<and>
    isWellFormed (geminiModel S) \<and> isWellFormed (orElse (geminiApiKey S) []) \<and>
    (requestTimeoutMs S \<le> 0 \<or> t \<le> timerDelay (requestTimeoutMs S))"
  have "geminiFixWithBackoff e (orElse (geminiApiKey S) []) (geminiModel S) cur err
          (requestTimeoutMs S) (client st) =
        (Throws (authMessage 401 (orElse body [])), (client st)\<lparr>calls := Suc (calls (client st))\<rparr>)"
  proof (rule geminiFixWithBackoff_rejected)
    from h show "orElse (fixMemo (client st) (memoKey V1beta (geminiModel S) (inferDiagramType cur)
              (preNormalizeMermaid_gemini cur) err)) [] = []" by blast
    from h show "isWellFormed (geminiModel S)" by blast
    from h show "isWellFormed (orElse (geminiApiKey S) [])" by blast
    from h show "net e (calls (client st)) = Reply t (Response 401 body)" by blast
    show "responseResult (json e) V1beta 401 (orElse body []) = Inl (authMessage 401 (orElse body []))"
      by (rule responseResult_401)
    from h show "requestTimeoutMs S \<le> 0 \<or> t \<le> timerDelay (requestTimeoutMs S)" by blast
  qed
  from attemptLoop_throws[OF this]
  show "attemptLoop e S b (Suc left) cur err st =
        Some (\<lparr>success = False, fixedCode = None\<rparr>,
              st\<lparr>client := (client st)\<lparr>calls := Suc (calls (client st))\<rparr>,
                 cancelled := True\<rparr>)"
    by (simp add: hardError_authMessage)
next
  assume "attemptLoop e S b maxAttempts (code b) err0 st0 = Some (res, st1) \<and> cancelled st1 \<and>
    \<not> cancelled st0 \<and> \<not> fileChanged e k"
  then show "blocksLoop e S ((b, err0) # rest) k st0 = Some st1" by simp
next
  assume c: "cancelled st1"
  then show "blocksLoop e S rest k st1 = Some st1" by (rule cancelled_blocksLoop)
  from c show "finish doc st1 = doc" by (simp add: finish_def)
next
  assume "runFixWithGemini e S (Some doc) stR = Some (d, st2) \<and> cancelled st2"
  then show "d = Some doc"
    by (auto simp: runFixWithGemini_def finish_def split: if_splits option.splits prod.splits)
qed

subsection \<open>The scenario, evaluated\<close>

lemma extract_docAB: "extractMermaidBlocks docAB = Some [blockA, blockB]"
  by (simp add: js_eval extractLoop.simps extractMermaidBlocks_def reExtract_def docAB_def
        blockA_def blockB_def)

lemma no_less_than_ABC:
  "60 \<notin> set (asc ''A'')" "60 \<notin> set (asc ''B'')" "60 \<notin> set (asc ''C'')"
  by (simp_all add: asc_def)

lemma no_bracket_ABC:
  "91 \<notin> set (asc ''A'')" "91 \<notin> set (asc ''B'')" "91 \<notin> set (asc ''C'')"
  by (simp_all add: asc_def)

lemma normalizeSurface_ABC:
  "normalizeSurface (asc ''A'') = asc ''A''" "normalizeSurface (asc ''B'') = asc ''B''"
  "normalizeSurface (asc ''C'') = asc ''C''"
  by (simp_all add: js_eval normalizeSurface_def)

lemmas preNormalize_ABC =
  preNormalizeMermaid_no_less_than[OF no_less_than_ABC(1)]
  preNormalizeMermaid_no_less_than[OF no_less_than_ABC(2)]
  preNormalizeMermaid_no_less_than[OF no_less_than_ABC(3)]
  preNormalizeMermaid_gemini_no_bracket[OF no_bracket_ABC(1)]
  preNormalizeMermaid_gemini_no_bracket[OF no_bracket_ABC(2)]
  preNormalizeMermaid_gemini_no_bracket[OF no_bracket_ABC(3)]

lemma inferDiagramType_AB:
  "inferDiagramType (asc ''A'') = None" "inferDiagramType (asc ''B'') = None"
  unfolding inferDiagramType_def Let_def
  by (simp_all add: js_eval startsWord_def)

lemma sentinel_C: "sanitizeMermaidOutput (extractFromSentinel (asc ''C'')) = asc ''C''"
  unfolding sanitizeMermaidOutput_def extractFromSentinel_def stripCodeFences_def
  by (simp add: js_eval normalizeSurface_def reSentinel_def reFenceOpen_def reFenceClose_def)

lemma preserveInit_AC:
  "preserveInitIfNeeded (asc ''A'') (asc ''C'') True = asc ''C''"
  "preserveInitIfNeeded (asc ''B'') (asc ''C'') True = asc ''C''"
  unfolding preserveInitIfNeeded_def Let_def
  by (simp_all add: js_eval norm_eval)

lemma wellFormed_settingsA: "isWellFormed (asc ''model'')" "isWellFormed (asc ''key'')"
  by (simp_all add: asc_def)

lemma not_hard_rate_limit: "\<not> hardError (rateLimitMessage [])"
  by (simp add: hardError_def rateLimitMessage_def reHardError_def js_eval)

lemma asc_ABC_distinct:
  "asc ''C'' \<noteq> asc ''A''" "asc ''C'' \<noteq> asc ''B''" "asc ''C'' \<noteq> []"
  "asc ''A'' \<noteq> []" "asc ''B'' \<noteq> []"
  "asc ''STOP'' \<noteq> []" "asc ''{}'' \<noteq> []"
  by (simp_all add: asc_def)

text \<open>In the scenario, a request that is served returns \<open>C\<close> and stores it.\<close>

lemma geminiFix_served:
  assumes "calls w \<noteq> k" and "fixMemo w (memoKey V1beta (asc ''model'') None src err) = None"
    and "src = asc ''A'' \<or> src = asc ''B''"
  shows "geminiFixWithBackoff (envFailingAt k status) (asc ''key'') (asc ''model'') src err 30000 w =
           (Returned (asc ''C''),
            w\<lparr>calls := Suc (calls w),
              fixMemo := (fixMemo w)(memoKey V1beta (asc ''model'') None src err \<mapsto> asc ''C'')\<rparr>)"
  using assms unfolding geminiFixWithBackoff_def geminiFixSingle_def Let_def
  by (auto simp: callGeminiSingle_def withTimeout_def settlesInTime_def timerDelay_30000
        responseResult_def
        goodJson_def envFailingAt_def orElse_def preNormalize_ABC normalizeSurface_ABC
        inferDiagramType_AB sentinel_C wellFormed_settingsA asc_ABC_distinct)

lemma validateIn_C:
  assumes "mm st = mm stateA"
  shows "validateIn st (asc ''C'') =
           Some (\<lparr>ok = True, error = None\<rparr>, st\<lparr>validations := Suc (validations st)\<rparr>)"
  using assms
  by (simp add: validateIn_def validateMermaidAsync_def entryPoint_def stateA_def
        strictParser_def preNormalize_ABC asc_ABC_distinct Let_def)

lemma validateIn_AB:
  assumes "mm st = mm stateA" and "src = asc ''A'' \<or> src = asc ''B''"
  shows "validateIn st src =
           Some (\<lparr>ok = False, error = Some (asc ''E'')\<rparr>,
                 st\<lparr>validations := Suc (validations st)\<rparr>)"
  using assms
  by (auto simp: validateIn_def validateMermaidAsync_def entryPoint_def stateA_def
        strictParser_def preNormalize_ABC errText_def Let_def)

text \<open>
  C9, in the scenario: the first call is served with \<open>C\<close>; the second call, with
  another key, another timeout and a service that would refuse it, returns \<open>C\<close> from the
  memo without a network call.
\<close>

theorem geminiFixSingle_memo_hit_witness:
  "geminiFixSingle (envFailingAt 5 429) (asc ''key'') (asc ''model'') (asc ''A'') (asc ''E'') 30000
     V1beta \<lparr>fixMemo = Map.empty, calls = 0\<rparr> =
     (Returned (asc ''C''),
      \<lparr>fixMemo = [memoKey V1beta (asc ''model'') None (asc ''A'') (asc ''E'') \<mapsto> asc ''C''],
        calls = 1\<rparr>) \<and>
   geminiFixSingle (envFailingAt 1 401) (asc ''other'') (asc ''model'') (asc ''A'') (asc ''E'') 0
     V1beta
     \<lparr>fixMemo = [memoKey V1beta (asc ''model'') None (asc ''A'') (asc ''E'') \<mapsto> asc ''C''],
       calls = 1\<rparr> =
     (Returned (asc ''C''),
      \<lparr>fixMemo = [memoKey V1beta (asc ''model'') None (asc ''A'') (asc ''E'') \<mapsto> asc ''C''],
        calls = 1\<rparr>)"
proof -
  have h: "geminiFixSingle (envFailingAt 5 429) (asc ''key'') (asc ''model'') (asc ''A'') (asc ''E'')
             30000 V1beta \<lparr>fixMemo = Map.empty, calls = 0\<rparr> =
           (Returned (asc ''C''),
            \<lparr>fixMemo = [memoKey V1beta (asc ''model'') None (asc ''A'') (asc ''E'') \<mapsto> asc ''C''],
              calls = 1\<rparr>)"
    using geminiFix_served[of "\<lparr>fixMemo = Map.empty, calls = 0\<rparr>" 5 "asc ''A''" "asc ''E''" 429]
    by (simp add: geminiFixWithBackoff_def)
  from geminiFixSingle_memo_hit[OF h refl refl] h show ?thesis by simp
qed

lemma maxAttempts_Suc: "maxAttempts = Suc 4"
  by (simp add: maxAttempts_def)

lemma memoKey_AB_distinct:
  "memoKey V1beta (asc ''model'') None (asc ''A'') (asc ''E'') \<noteq>
   memoKey V1beta (asc ''model'') None (asc ''B'') (asc ''E'')"
  by (simp add: memoKey_def versionString_def orElse_def asc_def)

lemma rateLimitMessage_only_429:
  assumes "responseResult j v status body = Inl (rateLimitMessage body')"
  shows "status = 429"
proof -
  have hd: "hd (rateLimitMessage body') = 12524" by (simp add: rateLimitMessage_def)
  have others:
    "hd (authMessage status body) = 71" "hd (notFoundMessage v body) = 12514"
    "hd (serverMessage status body) = 71" "hd (otherMessage status body) = 71"
    "hd (jsonMessage body) = 71" "\<And>fb. hd (noCandidateMessage fb) = 71"
    "\<And>reason. hd (incompleteMessage reason) = 29983"
    by (simp_all add: authMessage_def notFoundMessage_def serverMessage_def otherMessage_def
          jsonMessage_def noCandidateMessage_def incompleteMessage_def asc_def Let_def)
  show ?thesis
  proof (rule ccontr)
    assume "status \<noteq> 429"
    then have "\<forall>m. responseResult j v status body = Inl m \<longrightarrow> hd m \<in> {71, 12514, 29983}"
      by (auto simp: responseResult_def Let_def others split: option.splits)
    with assms have "hd (rateLimitMessage body') \<in> {71, 12514, 29983}"
      by blast
    with hd show False by simp
  qed
qed


text \<open>In the scenario, a request that is answered with an error status ends the attempts.\<close>

lemma rejected_request:
  assumes "responseResult goodJson V1beta status [] = Inl msg"
    and "calls (client st) = k"
    and "fixMemo (client st) (memoKey V1beta (asc ''model'') None (code b) (asc ''E'')) = None"
    and "b = blockA \<or> b = blockB"
  shows "attemptLoop (envFailingAt k status) settingsA b maxAttempts (code b) (asc ''E'') st =
         Some (\<lparr>success = False, fixedCode = None\<rparr>,
               st\<lparr>client := (client st)\<lparr>calls := Suc k\<rparr>,
                  cancelled := (hardError msg \<or> cancelled st)\<rparr>)"
proof -
  from assms(4) have pre: "inferDiagramType (code b) = None"
    "preNormalizeMermaid_gemini (code b) = code b"
    by (auto simp: blockA_def blockB_def inferDiagramType_AB preNormalize_ABC normalizeSurface_ABC)
  have "geminiFixWithBackoff (envFailingAt k status) (orElse (geminiApiKey settingsA) [])
          (geminiModel settingsA) (code b) (asc ''E'') (requestTimeoutMs settingsA) (client st) =
        (Throws msg, (client st)\<lparr>calls := Suc (calls (client st))\<rparr>)"
  proof (rule geminiFixWithBackoff_rejected)
    show "net (envFailingAt k status) (calls (client st)) = Reply 10 (Response status (Some []))"
      by (simp add: envFailingAt_def assms(2))
    show "responseResult (json (envFailingAt k status)) V1beta status (orElse (Some []) []) = Inl msg"
      using assms(1) by (simp add: envFailingAt_def orElse_def)
    show "orElse (fixMemo (client st) (memoKey V1beta (geminiModel settingsA)
            (inferDiagramType (code b)) (preNormalizeMermaid_gemini (code b)) (asc ''E''))) [] = []"
      using assms(3) by (simp add: pre settingsA_def orElse_def)
  qed (simp_all add: settingsA_def orElse_def wellFormed_settingsA timerDelay_30000)
  from attemptLoop_throws[OF this, of b 4] show ?thesis
    by (simp add: maxAttempts_Suc assms(2))
qed

text \<open>In the scenario, a request that is served ends the attempts with the block fixed.\<close>

lemma served_attempt:
  assumes "calls (client st) \<noteq> k"
    and "fixMemo (client st) (memoKey V1beta (asc ''model'') None (code b) (asc ''E'')) = None"
    and "b = blockA \<or> b = blockB" and "mm st = mm stateA"
  shows "attemptLoop (envFailingAt k status) settingsA b (Suc left) (code b) (asc ''E'') st =
         Some (\<lparr>success = True, fixedCode = Some (asc ''C'')\<rparr>,
               st\<lparr>client :=
                    (client st)\<lparr>calls := Suc (calls (client st)),
                      fixMemo := (fixMemo (client st))
                        (memoKey V1beta (asc ''model'') None (code b) (asc ''E'') \<mapsto> asc ''C'')\<rparr>,
                  validations := Suc (validations st)\<rparr>)"
proof -
  from assms(3) have src: "code b = asc ''A'' \<or> code b = asc ''B''"
    by (auto simp: blockA_def blockB_def)
  then have p: "preserveInitIfNeeded (code b) (asc ''C'') True = asc ''C''"
    by (auto simp: preserveInit_AC)
  from geminiFix_served[OF assms(1,2) src]
  show ?thesis
    by (simp add: settingsA_def orElse_def p validateIn_C assms(4))
qed

lemma hasMermaid_stateA: "hasMermaid (mm stateA)"
  by (simp add: hasMermaid_def stateA_def)

lemma collectErrors_docAB:
  "collectErrors [blockA, blockB] stateA =
     Some ([(blockA, asc ''E''), (blockB, asc ''E'')], stateA\<lparr>validations := 2\<rparr>)"
  using validateIn_AB[of stateA "asc ''A''"]
    validateIn_AB[of "stateA\<lparr>validations := Suc (validations stateA)\<rparr>" "asc ''B''"]
  by (simp add: blockA_def blockB_def orElse_def stateA_def)

lemma blocksLoop_429:
  "blocksLoop (envFailingAt 0 429) settingsA [(blockA, asc ''E''), (blockB, asc ''E'')] 0
     (stateA\<lparr>validations := 2\<rparr>) =
   Some (stateA\<lparr>client :=
                   \<lparr>fixMemo = [memoKey V1beta (asc ''model'') None (asc ''B'') (asc ''E'')
                                 \<mapsto> asc ''C''],
                     calls = 2\<rparr>,
                 validations := 3, replacements := [queued blockB (asc ''C'')]\<rparr>)"
  using rejected_request[of 429 "rateLimitMessage []" "stateA\<lparr>validations := 2\<rparr>" 0 blockA]
    served_attempt[of "stateA\<lparr>client := \<lparr>fixMemo = Map.empty, calls = 1\<rparr>, validations := 2\<rparr>"
      0 blockB 429 4]
  by (simp add: responseResult_429 not_hard_rate_limit maxAttempts_Suc stateA_def
        envFailingAt_def blockA_def blockB_def asc_ABC_distinct orElse_def)

lemma run_429:
  "runFixWithGemini (envFailingAt 0 429) settingsA (Some docAB) stateA =
     Some (Some (asc ''```mermaid'' @ [10] @ asc ''A'' @ [10] @ asc ''```'' @ [10] @
                 asc ''~~~mermaid'' @ [10] @ asc ''C'' @ [10] @ asc ''~~~''),
           stateA\<lparr>client :=
                    \<lparr>fixMemo = [memoKey V1beta (asc ''model'') None (asc ''B'') (asc ''E'')
                                  \<mapsto> asc ''C''],
                      calls = 2\<rparr>,
                  validations := 3, replacements := [queued blockB (asc ''C'')]\<rparr>)"
proof -
  have st: "stateA\<lparr>validations := 2, replacements := [],
              autoApply := (modeSetting stateA = Auto), cancelled := False\<rparr> =
            stateA\<lparr>validations := 2\<rparr>"
    by (simp add: stateA_def)
  have fin: "finish docAB
               (stateA\<lparr>client :=
                    \<lparr>fixMemo = [memoKey V1beta (asc ''model'') None (asc ''B'') (asc ''E'')
                                  \<mapsto> asc ''C''],
                      calls = 2\<rparr>,
                  validations := 3, replacements := [queued blockB (asc ''C'')]\<rparr>) =
             asc ''```mermaid'' @ [10] @ asc ''A'' @ [10] @ asc ''```'' @ [10] @
             asc ''~~~mermaid'' @ [10] @ asc ''C'' @ [10] @ asc ''~~~''"
    by (simp add: finish_def applyReplacementsReverse_def queued_def clamp_def blockB_def
          docAB_def asc_def stateA_def)
  have key: "orElse (geminiApiKey settingsA) [] \<noteq> []"
    by (simp add: settingsA_def orElse_def asc_def)
  show ?thesis
    unfolding runFixWithGemini_def
    by (simp add: key hasMermaid_stateA extract_docAB
          collectErrors_docAB st blocksLoop_429 fin del: blocksLoop.simps collectErrors.simps)
qed

lemma blocksLoop_401_first:
  "blocksLoop (envFailingAt 0 401) settingsA [(blockA, asc ''E''), (blockB, asc ''E'')] 0
     (stateA\<lparr>validations := 2\<rparr>) =
   Some (stateA\<lparr>client := \<lparr>fixMemo = Map.empty, calls = 1\<rparr>, validations := 2,
                 cancelled := True\<rparr>)"
  using rejected_request[of 401 "authMessage 401 []" "stateA\<lparr>validations := 2\<rparr>" 0 blockA]
  by (simp add: responseResult_401 hardError_authMessage maxAttempts_Suc stateA_def
        envFailingAt_def blockA_def)

lemma blocksLoop_401_second:
  "blocksLoop (envFailingAt 1 401) settingsA [(blockA, asc ''E''), (blockB, asc ''E'')] 0
     (stateA\<lparr>validations := 2\<rparr>) =
   Some (stateA\<lparr>client :=
                   \<lparr>fixMemo = [memoKey V1beta (asc ''model'') None (asc ''A'') (asc ''E'')
                                 \<mapsto> asc ''C''],
                     calls = 2\<rparr>,
                 validations := 3, replacements := [queued blockA (asc ''C'')],
                 cancelled := True\<rparr>)"
  using served_attempt[of "stateA\<lparr>validations := 2\<rparr>" 1 blockA 401 4]
    rejected_request[of 401 "authMessage 401 []"
      "stateA\<lparr>client :=
                \<lparr>fixMemo = [memoKey V1beta (asc ''model'') None (asc ''A'') (asc ''E'')
                              \<mapsto> asc ''C''],
                  calls = 1\<rparr>,
              validations := 3, replacements := [queued blockA (asc ''C'')]\<rparr>" 1 blockB]
    memoKey_AB_distinct
  by (simp add: responseResult_401 hardError_authMessage maxAttempts_Suc stateA_def
        envFailingAt_def blockA_def blockB_def asc_ABC_distinct orElse_def)

lemma run_prefix:
  "orElse (geminiApiKey settingsA) [] \<noteq> []"
  "stateA\<lparr>validations := 2, replacements := [], autoApply := (modeSetting stateA = Auto),
          cancelled := False\<rparr> = stateA\<lparr>validations := 2\<rparr>"
  by (simp_all add: settingsA_def orElse_def asc_def stateA_def)

lemma run_401_first:
  "runFixWithGemini (envFailingAt 0 401) settingsA (Some docAB) stateA =
     Some (Some docAB,
           stateA\<lparr>client := \<lparr>fixMemo = Map.empty, calls = 1\<rparr>, validations := 2,
                  cancelled := True\<rparr>)"
  unfolding runFixWithGemini_def
  by (simp add: run_prefix hasMermaid_stateA extract_docAB collectErrors_docAB
        blocksLoop_401_first finish_def del: blocksLoop.simps collectErrors.simps)

lemma run_401_second:
  "runFixWithGemini (envFailingAt 1 401) settingsA (Some docAB) stateA =
     Some (Some docAB,
           stateA\<lparr>client :=
                    \<lparr>fixMemo = [memoKey V1beta (asc ''model'') None (asc ''A'') (asc ''E'')
                                  \<mapsto> asc ''C''],
                      calls = 2\<rparr>,
                  validations := 3, replacements := [queued blockA (asc ''C'')],
                  cancelled := True\<rparr>)"
  unfolding runFixWithGemini_def
  using blocksLoop_401_second
  by (simp add: run_prefix hasMermaid_stateA extract_docAB collectErrors_docAB
        finish_def del: blocksLoop.simps collectErrors.simps)

text \<open>
  C4, in the scenario. The first request, for block \<open>A\<close>, is answered with 401: the run is
  cancelled after one call, block \<open>B\<close> (which the service would have fixed) is not
  attempted, and the document is left as it was. When it is the second request that
  is answered with 401, the fix queued for block \<open>A\<close> is not applied either.
\<close>

theorem unauthorized_aborts_batch_witness:
  "attemptLoop (envFailingAt 0 401) settingsA blockA (Suc 4) (asc ''A'') (asc ''E'')
     (stateA\<lparr>validations := 2\<rparr>) =
     Some (\<lparr>success = False, fixedCode = None\<rparr>,
           stateA\<lparr>client := \<lparr>fixMemo = Map.empty, calls = 1\<rparr>, validations := 2,
                  cancelled := True\<rparr>) \<and>
   blocksLoop (envFailingAt 0 401) settingsA [(blockA, asc ''E''), (blockB, asc ''E'')] 0
     (stateA\<lparr>validations := 2\<rparr>) =
     Some (stateA\<lparr>client := \<lparr>fixMemo = Map.empty, calls = 1\<rparr>, validations := 2,
                   cancelled := True\<rparr>) \<and>
   blocksLoop (envFailingAt 0 401) settingsA [(blockB, asc ''E'')] 0
     (stateA\<lparr>client := \<lparr>fixMemo = Map.empty, calls = 1\<rparr>, validations := 2,
             cancelled := True\<rparr>) =
     Some (stateA\<lparr>client := \<lparr>fixMemo = Map.empty, calls = 1\<rparr>, validations := 2,
                   cancelled := True\<rparr>) \<and>
   finish docAB
     (stateA\<lparr>client := \<lparr>fixMemo = Map.empty, calls = 1\<rparr>, validations := 2,
             cancelled := True\<rparr>) = docAB \<and>
   runFixWithGemini (envFailingAt 1 401) settingsA (Some docAB) stateA =
     Some (Some docAB,
           stateA\<lparr>client :=
                    \<lparr>fixMemo = [memoKey V1beta (asc ''model'') None (asc ''A'') (asc ''E'')
                                  \<mapsto> asc ''C''],
                      calls = 2\<rparr>,
                  validations := 3, replacements := [queued blockA (asc ''C'')],
                  cancelled := True\<rparr>)"
proof -
  let ?st = "stateA\<lparr>validations := 2\<rparr>"
  let ?st1 = "stateA\<lparr>client := \<lparr>fixMemo = Map.empty, calls = 1\<rparr>, validations := 2,
                     cancelled := True\<rparr>"
  let ?fail = "\<lparr>success = False, fixedCode = None\<rparr>"
  note T = unauthorized_aborts_batch[where e = "envFailingAt 0 401" and S = settingsA
      and st = ?st and t = 10 and body = "Some []" and cur = "asc ''A''" and err = "asc ''E''"
      and b = blockA and left = 4 and ?err0.0 = "asc ''E''" and ?st0.0 = ?st and res = ?fail
      and ?st1.0 = ?st1 and k = 0 and rest = "[(blockB, asc ''E'')]" and doc = docAB]
  note c3 = T[THEN conjunct2, THEN conjunct2, THEN conjunct1, rule_format]
  note c4 = T[THEN conjunct2, THEN conjunct2, THEN conjunct2, THEN conjunct1, rule_format]
  note c5 = T[THEN conjunct2, THEN conjunct2, THEN conjunct2, THEN conjunct2, THEN conjunct1,
      rule_format]
  note c6 = unauthorized_aborts_batch[where e = "envFailingAt 1 401" and S = settingsA
      and doc = docAB and stR = stateA, THEN conjunct2, THEN conjunct2, THEN conjunct2,
      THEN conjunct2, THEN conjunct2, rule_format]
  have a3: "attemptLoop (envFailingAt 0 401) settingsA blockA (Suc 4) (asc ''A'') (asc ''E'') ?st =
              Some (?fail, ?st1)"
    using c3
    by (simp add: envFailingAt_def stateA_def settingsA_def orElse_def wellFormed_settingsA
          inferDiagramType_AB preNormalize_ABC normalizeSurface_ABC timerDelay_30000)
  have a4: "blocksLoop (envFailingAt 0 401) settingsA [(blockA, asc ''E''), (blockB, asc ''E'')] 0
              ?st = Some ?st1"
    using c4 a3 by (simp add: maxAttempts_Suc blockA_def envFailingAt_def stateA_def)
  have a5: "blocksLoop (envFailingAt 0 401) settingsA [(blockB, asc ''E'')] 0 ?st1 = Some ?st1"
    "finish docAB ?st1 = docAB"
    using c5 by simp_all
  from c6[OF conjI[OF run_401_second]] run_401_second
  have a6: "runFixWithGemini (envFailingAt 1 401) settingsA (Some docAB) stateA =
     Some (Some docAB,
           stateA\<lparr>client :=
                    \<lparr>fixMemo = [memoKey V1beta (asc ''model'') None (asc ''A'') (asc ''E'')
                                  \<mapsto> asc ''C''],
                      calls = 2\<rparr>,
                  validations := 3, replacements := [queued blockA (asc ''C'')],
                  cancelled := True\<rparr>)"
    by simp
  from a3 a4 a5 a6 show ?thesis by (simp only: simp_thms)
qed

text \<open>
  C3. In the scenario the first request, for block \<open>A\<close>, is answered with 429. The
  attempt loop, entered with five attempts, ends in failure after that one request;
  entered again with the four attempts that were left, it would have had the block
  fixed by the next request. The run goes on with block \<open>B\<close> and leaves block \<open>A\<close> in
  the document as it was.
\<close>

theorem rate_limit_retry_counterexample:
  "attemptLoop (envFailingAt 0 429) settingsA blockA maxAttempts (code blockA) (asc ''E'')
     (stateA\<lparr>validations := 2\<rparr>) =
     Some (\<lparr>success = False, fixedCode = None\<rparr>,
           stateA\<lparr>client := \<lparr>fixMemo = Map.empty, calls = 1\<rparr>, validations := 2\<rparr>) \<and>
   attemptLoop (envFailingAt 0 429) settingsA blockA 4 (code blockA) (asc ''E'')
     (stateA\<lparr>client := \<lparr>fixMemo = Map.empty, calls = 1\<rparr>, validations := 2\<rparr>) =
     Some (\<lparr>success = True, fixedCode = Some (asc ''C'')\<rparr>,
           stateA\<lparr>client :=
                    \<lparr>fixMemo = [memoKey V1beta (asc ''model'') None (asc ''A'') (asc ''E'')
                                  \<mapsto> asc ''C''],
                      calls = 2\<rparr>,
                  validations := 3\<rparr>) \<and>
   runFixWithGemini (envFailingAt 0 429) settingsA (Some docAB) stateA =
     Some (Some (asc ''```mermaid'' @ [10] @ asc ''A'' @ [10] @ asc ''```'' @ [10] @
                 asc ''~~~mermaid'' @ [10] @ asc ''C'' @ [10] @ asc ''~~~''),
           stateA\<lparr>client :=
                    \<lparr>fixMemo = [memoKey V1beta (asc ''model'') None (asc ''B'') (asc ''E'')
                                  \<mapsto> asc ''C''],
                      calls = 2\<rparr>,
                  validations := 3, replacements := [queued blockB (asc ''C'')]\<rparr>)"
proof -
  have a: "attemptLoop (envFailingAt 0 429) settingsA blockA maxAttempts (code blockA) (asc ''E'')
     (stateA\<lparr>validations := 2\<rparr>) =
     Some (\<lparr>success = False, fixedCode = None\<rparr>,
           stateA\<lparr>client := \<lparr>fixMemo = Map.empty, calls = 1\<rparr>, validations := 2\<rparr>)"
    using rejected_request[of 429 "rateLimitMessage []" "stateA\<lparr>validations := 2\<rparr>" 0 blockA]
    by (simp add: responseResult_429 not_hard_rate_limit stateA_def)
  have b: "attemptLoop (envFailingAt 0 429) settingsA blockA 4 (code blockA) (asc ''E'')
     (stateA\<lparr>client := \<lparr>fixMemo = Map.empty, calls = 1\<rparr>, validations := 2\<rparr>) =
     Some (\<lparr>success = True, fixedCode = Some (asc ''C'')\<rparr>,
           stateA\<lparr>client :=
                    \<lparr>fixMemo = [memoKey V1beta (asc ''model'') None (asc ''A'') (asc ''E'')
                                  \<mapsto> asc ''C''],
                      calls = 2\<rparr>,
                  validations := 3\<rparr>)"
    using served_attempt[of "stateA\<lparr>client := \<lparr>fixMemo = Map.empty, calls = 1\<rparr>,
                                    validations := 2\<rparr>" 0 blockA 429 3]
    by (simp add: stateA_def blockA_def eval_nat_numeral del: attemptLoop.simps)
  from a b run_429 show ?thesis by (simp only: simp_thms)
qed

text \<open>
  A request answered with an error that is no hard error ends the attempts with one
  more call and nothing else changed, in time or not: the timeout error is no hard
  error either.
\<close>

lemma attemptLoop_soft_error:
  assumes "orElse (fixMemo (client st) (memoKey V1beta (geminiModel S) (inferDiagramType cur)
                     (preNormalizeMermaid_gemini cur) err)) [] = []"
    and "isWellFormed (geminiModel S)" and "isWellFormed (orElse (geminiApiKey S) [])"
    and "net e (calls (client st)) = Reply t (Response status body)"
    and "responseResult (json e) V1beta status (orElse body []) = Inl msg"
    and "\<not> hardError msg"
  shows "attemptLoop e S b (Suc left) cur err st =
           Some (\<lparr>success = False, fixedCode = None\<rparr>,
                 st\<lparr>client := (client st)\<lparr>calls := Suc (calls (client st))\<rparr>\<rparr>)"
proof (cases "requestTimeoutMs S \<le> 0 \<or> t \<le> timerDelay (requestTimeoutMs S)")
  case True
  from attemptLoop_throws[OF geminiFixWithBackoff_rejected[OF assms(1-5) True]] assms(6)
  show ?thesis by simp
next
  case False
  from attemptLoop_throws[OF geminiFixWithBackoff_late[OF assms(1-4) False]] not_hard_timeout
  show ?thesis by simp
qed

text \<open>
  C3 (amended). A 429, and no other answer, makes the client raise the rate-limit
  error. When that error is no hard error (its message ends with the body of the
  response, which could hold one of the hard phrases), the attempt loop ends in failure
  after that one request, whatever attempts are left, with nothing but the count of
  calls changed: the block is abandoned, not retried. The loop over the blocks then goes
  on with the next block.
\<close>

theorem rate_limit_abandons_block:
  "responseResult j v 429 body' = Inl (rateLimitMessage body') \<and>
   (responseResult j v status body' = Inl (rateLimitMessage body'') \<longrightarrow> status = 429) \<and>
   (net e (calls (client st)) = Reply t (Response 429 body) \<and>
    orElse (fixMemo (client st) (memoKey V1beta (geminiModel S) (inferDiagramType cur)
              (preNormalizeMermaid_gemini cur) err)) [] = [] \<and>
    isWellFormed (geminiModel S) \<and> isWellFormed (orElse (geminiApiKey S) []) \<and>
    (requestTimeoutMs S \<le> 0 \<or> int t < requestTimeoutMs S) \<and>
    \<not> hardError (rateLimitMessage (orElse body [])) \<longrightarrow>
      attemptLoop e S b (Suc left) cur err st =
        Some (\<lparr>success = False, fixedCode = None\<rparr>,
              st\<lparr>client := (client st)\<lparr>calls := Suc (calls (client st))\<rparr>\<rparr>)) \<and>
   (attemptLoop e S b maxAttempts (code b) err0 st0 = Some (res, st1) \<and> \<not> success res \<and>
    \<not> cancelled st1 \<and> \<not> cancelled st0 \<and> \<not> fileChanged e k \<longrightarrow>
      blocksLoop e S ((b, err0) # rest) k st0 = blocksLoop e S rest (Suc k) st1)"
proof (intro conjI impI)
  show "responseResult j v 429 body' = Inl (rateLimitMessage body')"
    by (rule responseResult_429)
next
  assume "responseResult j v status body' = Inl (rateLimitMessage body'')"
  then show "status = 429" by (rule rateLimitMessage_only_429)
next
  assume h: "net e (calls (client st)) = Reply t (Response 429 body) \<and>
    orElse (fixMemo (client st) (memoKey V1beta (geminiModel S) (inferDiagramType cur)
              (preNormalizeMermaid_gemini cur) err)) [] = [] \<and>
    isWellFormed (geminiModel S) \<and> isWellFormed (orElse (geminiApiKey S) []) \<and>
    (requestTimeoutMs S \<le> 0 \<or> int t < requestTimeoutMs S) \<and>
    \<not> hardError (rateLimitMessage (orElse body []))"
  show "attemptLoop e S b (Suc left) cur err st =
        Some (\<lparr>success = False, fixedCode = None\<rparr>,
              st\<lparr>client := (client st)\<lparr>calls := Suc (calls (client st))\<rparr>\<rparr>)"
  proof (rule attemptLoop_soft_error)
    from h show "orElse (fixMemo (client st) (memoKey V1beta (geminiModel S) (inferDiagramType cur)
              (preNormalizeMermaid_gemini cur) err)) [] = []" by blast
    from h show "isWellFormed (geminiModel S)" by blast
    from h show "isWellFormed (orElse (geminiApiKey S) [])" by blast
    from h show "net e (calls (client st)) = Reply t (Response 429 body)" by blast
    show "responseResult (json e) V1beta 429 (orElse body []) =
            Inl (rateLimitMessage (orElse body []))"
      by (rule responseResult_429)
    from h show "\<not> hardError (rateLimitMessage (orElse body []))" by blast
  qed
next
  assume "attemptLoop e S b maxAttempts (code b) err0 st0 = Some (res, st1) \<and> \<not> success res \<and>
    \<not> cancelled st1 \<and> \<not> cancelled st0 \<and> \<not> fileChanged e k"
  then show "blocksLoop e S ((b, err0) # rest) k st0 = blocksLoop e S rest (Suc k) st1"
    by simp
qed

text \<open>
  C3, in the scenario: after the 429 for block \<open>A\<close> the attempt loop has made one call
  and failed, and the loop over the blocks goes on with block \<open>B\<close>, which is fixed.
\<close>

theorem rate_limit_abandons_block_witness:
  "responseResult goodJson V1beta 429 [] = Inl (rateLimitMessage []) \<and>
   attemptLoop (envFailingAt 0 429) settingsA blockA (Suc 4) (asc ''A'') (asc ''E'')
     (stateA\<lparr>validations := 2\<rparr>) =
     Some (\<lparr>success = False, fixedCode = None\<rparr>,
           stateA\<lparr>client := \<lparr>fixMemo = Map.empty, calls = 1\<rparr>, validations := 2\<rparr>) \<and>
   blocksLoop (envFailingAt 0 429) settingsA [(blockA, asc ''E''), (blockB, asc ''E'')] 0
     (stateA\<lparr>validations := 2\<rparr>) =
     blocksLoop (envFailingAt 0 429) settingsA [(blockB, asc ''E'')] 1
       (stateA\<lparr>client := \<lparr>fixMemo = Map.empty, calls = 1\<rparr>, validations := 2\<rparr>) \<and>
   blocksLoop (envFailingAt 0 429) settingsA [(blockB, asc ''E'')] 1
     (stateA\<lparr>client := \<lparr>fixMemo = Map.empty, calls = 1\<rparr>, validations := 2\<rparr>) =
     Some (stateA\<lparr>client :=
                     \<lparr>fixMemo = [memoKey V1beta (asc ''model'') None (asc ''B'') (asc ''E'')
                                   \<mapsto> asc ''C''],
                       calls = 2\<rparr>,
                   validations := 3, replacements := [queued blockB (asc ''C'')]\<rparr>)"
proof -
  let ?st = "stateA\<lparr>validations := 2\<rparr>"
  let ?st1 = "stateA\<lparr>client := \<lparr>fixMemo = Map.empty, calls = 1\<rparr>, validations := 2\<rparr>"
  let ?fail = "\<lparr>success = False, fixedCode = None\<rparr>"
  note T = rate_limit_abandons_block[where j = goodJson and v = V1beta and body' = "[]"
      and status = 429 and body'' = "[]"
      and e = "envFailingAt 0 429" and S = settingsA
      and st = ?st and t = 10 and body = "Some []" and cur = "asc ''A''" and err = "asc ''E''"
      and b = blockA and left = 4 and ?err0.0 = "asc ''E''" and ?st0.0 = ?st and res = ?fail
      and ?st1.0 = ?st1 and k = 0 and rest = "[(blockB, asc ''E'')]"]
  note c1 = T[THEN conjunct1]
  note c3 = T[THEN conjunct2, THEN conjunct2, THEN conjunct1, rule_format]
  note c4 = T[THEN conjunct2, THEN conjunct2, THEN conjunct2, rule_format]
  have a3: "attemptLoop (envFailingAt 0 429) settingsA blockA (Suc 4) (asc ''A'') (asc ''E'') ?st =
              Some (?fail, ?st1)"
    using c3
    by (simp add: envFailingAt_def stateA_def settingsA_def orElse_def wellFormed_settingsA
          inferDiagramType_AB preNormalize_ABC normalizeSurface_ABC not_hard_rate_limit)
  have a4: "blocksLoop (envFailingAt 0 429) settingsA [(blockA, asc ''E''), (blockB, asc ''E'')] 0
              ?st =
            blocksLoop (envFailingAt 0 429) settingsA [(blockB, asc ''E'')] 1 ?st1"
    using c4 a3
    by (simp add: maxAttempts_Suc blockA_def envFailingAt_def stateA_def
          del: blocksLoop.simps attemptLoop.simps)
  have a5: "blocksLoop (envFailingAt 0 429) settingsA [(blockB, asc ''E'')] 1 ?st1 =
     Some (stateA\<lparr>client :=
                     \<lparr>fixMemo = [memoKey V1beta (asc ''model'') None (asc ''B'') (asc ''E'')
                                   \<mapsto> asc ''C''],
                       calls = 2\<rparr>,
                   validations := 3, replacements := [queued blockB (asc ''C'')]\<rparr>)"
    using blocksLoop_429 a4 by (simp only:)
  from c1 a3 a4 a5 show ?thesis by (simp only: simp_thms)
qed

text \<open>
  The limit of C4: an answer that comes after the timer is due is not seen. With the
  timeout 3000000000, which does not fit the 32 bits of the timer, the timer is due at
  once; the 401 that comes after 10 milliseconds is lost, the attempt fails with the
  timeout error and the run is not cancelled.
\<close>

lemma late_answer_not_cancelled:
  assumes "orElse (fixMemo (client st) (memoKey V1beta (geminiModel S) (inferDiagramType cur)
                     (preNormalizeMermaid_gemini cur) err)) [] = []"
    and "isWellFormed (geminiModel S)" and "isWellFormed (orElse (geminiApiKey S) [])"
    and "net e (calls (client st)) = Reply t (Response status body)"
    and "\<not> (requestTimeoutMs S \<le> 0 \<or> t \<le> timerDelay (requestTimeoutMs S))"
  shows "attemptLoop e S b (Suc left) cur err st =
           Some (\<lparr>success = False, fixedCode = None\<rparr>,
                 st\<lparr>client := (client st)\<lparr>calls := Suc (calls (client st))\<rparr>\<rparr>)"
  using attemptLoop_throws[OF geminiFixWithBackoff_late[OF assms]] not_hard_timeout
  by simp

lemma oversized_timeout_hides_401:
  "timerDelay 3000000000 = 0 \<and>
   attemptLoop (envFailingAt 0 401) (settingsA\<lparr>requestTimeoutMs := 3000000000\<rparr>) blockA
     (Suc 4) (asc ''A'') (asc ''E'') (stateA\<lparr>validations := 2\<rparr>) =
     Some (\<lparr>success = False, fixedCode = None\<rparr>,
           stateA\<lparr>client := \<lparr>fixMemo = Map.empty, calls = 1\<rparr>, validations := 2\<rparr>)"
proof -
  have d: "timerDelay 3000000000 = 0"
    by (simp add: timerDelay_def toInt32_def Let_def)
  from late_answer_not_cancelled[where e = "envFailingAt 0 401"
      and S = "settingsA\<lparr>requestTimeoutMs := 3000000000\<rparr>" and st = "stateA\<lparr>validations := 2\<rparr>"
      and t = 10 and body = "Some []" and status = 401 and cur = "asc ''A''" and err = "asc ''E''"
      and b = blockA and left = 4]
  show ?thesis
    by (simp add: d envFailingAt_def stateA_def settingsA_def orElse_def wellFormed_settingsA
          inferDiagramType_AB preNormalize_ABC normalizeSurface_ABC)
qed

end
